theory Spec2Isabelle
  imports Main "HOL-Library.Sublist"
begin

section \<open>Values of the host language\<close>

text \<open>
  The parser works on untyped values (\<^verbatim>\<open>any\<close>): the trees that the XML parser builds are
  nested objects, arrays and strings, and a missing property reads as \<^verbatim>\<open>undefined\<close>.
  An object is an association list (the first binding of a key is the one read); an array
  is a dense list; a string is a list of characters, one per code unit.
\<close>

datatype jsval =
    Undefined
  | Null
  | Str string
  | Arr "jsval list"
  | Obj "(string \<times> jsval) list"

text \<open>
  The operations on which the engine raises a \<^verbatim>\<open>TypeError\<close>: the read of a property (named
  by its key) of \<^verbatim>\<open>undefined\<close> or of \<^verbatim>\<open>null\<close>, the call of a member that is not a
  function (named by the member path of the callee in the source), and the conversion to a
  string of an object that has no callable \<^verbatim>\<open>toString\<close>.
\<close>

datatype failed_operation =
    ReadOfUndefined string
  | ReadOfNull string
  | NotAFunction "string list"
  | NotPrimitive

text \<open>
  A thrown value. \<open>Error m\<close> is \<^verbatim>\<open>new Error(m)\<close>. The wording of the message of a
  \<^verbatim>\<open>TypeError\<close> is the engine's: it is the parameter \<open>engine\<close> of \<open>message\<close>.
\<close>

datatype js_error = Error string | TypeError failed_operation

fun message :: "(failed_operation \<Rightarrow> string) \<Rightarrow> js_error \<Rightarrow> string" where
  "message engine (Error m) = m"
| "message engine (TypeError operation) = engine operation"

text \<open>Truthiness, as \<^verbatim>\<open>if (v)\<close>, \<^verbatim>\<open>!v\<close> and \<^verbatim>\<open>&&\<close> test it.\<close>

fun truthy :: "jsval \<Rightarrow> bool" where
  "truthy Undefined = False"
| "truthy Null = False"
| "truthy (Str s) = (s \<noteq> [])"
| "truthy (Arr xs) = True"
| "truthy (Obj kvs) = True"

text \<open>
  \<open>get v k\<close> is the property read \<^verbatim>\<open>v[k]\<close> for a key \<open>k\<close> that is a tag or attribute
  name (the program reads no other string keys): it throws on \<^verbatim>\<open>undefined\<close> and
  \<^verbatim>\<open>null\<close>, and a string or an array has no such property.
\<close>

fun get :: "jsval \<Rightarrow> string \<Rightarrow> js_error + jsval" where
  "get Undefined k = Inl (TypeError (ReadOfUndefined k))"
| "get Null k = Inl (TypeError (ReadOfNull k))"
| "get (Str s) k = Inr Undefined"
| "get (Arr xs) k = Inr Undefined"
| "get (Obj kvs) k = Inr (case map_of kvs k of None \<Rightarrow> Undefined | Some v \<Rightarrow> v)"

text \<open>\<open>index0 v\<close> is the read \<^verbatim>\<open>v[0]\<close>.\<close>

fun index0 :: "jsval \<Rightarrow> js_error + jsval" where
  "index0 Undefined = Inl (TypeError (ReadOfUndefined ''0''))"
| "index0 Null = Inl (TypeError (ReadOfNull ''0''))"
| "index0 (Str s) = Inr (case s of [] \<Rightarrow> Undefined | c # _ \<Rightarrow> Str [c])"
| "index0 (Arr xs) = Inr (case xs of [] \<Rightarrow> Undefined | x # _ \<Rightarrow> x)"
| "index0 (Obj kvs) = Inr (case map_of kvs ''0'' of None \<Rightarrow> Undefined | Some v \<Rightarrow> v)"

text \<open>\<^verbatim>\<open>Array.prototype.join\<close> on strings.\<close>

fun join :: "string \<Rightarrow> string list \<Rightarrow> string" where
  "join sep [] = []"
| "join sep [x] = x"
| "join sep (x # y # ys) = x @ sep @ join sep (y # ys)"

text \<open>
  Conversion to a string, as \<^verbatim>\<open>join\<close> and a template literal perform it. An array is
  the comma-join of its elements. An object is \<^verbatim>\<open>[object Object]\<close> through the method it
  inherits; an own property \<^verbatim>\<open>toString\<close> hides that method, and since no value of a tree
  is a function the conversion then raises. Inside a join, \<^verbatim>\<open>undefined\<close> and \<^verbatim>\<open>null\<close>
  elements are the empty string.
\<close>

fun toString :: "jsval \<Rightarrow> js_error + string"
  and elementStrings :: "jsval list \<Rightarrow> js_error + string list" where
  "toString Undefined = Inr ''undefined''"
| "toString Null = Inr ''null''"
| "toString (Str s) = Inr s"
| "toString (Arr xs) =
     (case elementStrings xs of Inl e \<Rightarrow> Inl e | Inr ss \<Rightarrow> Inr (join '','' ss))"
| "toString (Obj kvs) =
     (case map_of kvs ''toString'' of
        None \<Rightarrow> Inr ''[object Object]''
      | Some v \<Rightarrow> Inl (TypeError NotPrimitive))"
| "elementStrings [] = Inr []"
| "elementStrings (x # xs) =
     (case (case x of Undefined \<Rightarrow> Inr [] | Null \<Rightarrow> Inr [] | _ \<Rightarrow> toString x) of
        Inl e \<Rightarrow> Inl e
      | Inr s \<Rightarrow>
          (case elementStrings xs of Inl e \<Rightarrow> Inl e | Inr ss \<Rightarrow> Inr (s # ss)))"

definition js_join :: "string \<Rightarrow> jsval list \<Rightarrow> js_error + string" where
  "js_join sep xs =
     (case elementStrings xs of Inl e \<Rightarrow> Inl e | Inr ss \<Rightarrow> Inr (join sep ss))"

text \<open>
  \<^verbatim>\<open>xs.forEach(f)\<close> where \<open>f\<close> updates the arrays it closes over: the state \<open>s\<close> is
  passed through the calls, and a throw in one call ends the loop.
\<close>

fun forEach :: "('a \<Rightarrow> 's \<Rightarrow> js_error + 's) \<Rightarrow> 'a list \<Rightarrow> 's \<Rightarrow> js_error + 's" where
  "forEach f [] s = Inr s"
| "forEach f (x # xs) s = (case f x s of Inl e \<Rightarrow> Inl e | Inr s' \<Rightarrow> forEach f xs s')"

text \<open>
  The call \<^verbatim>\<open>v.forEach(f)\<close> on a value: only an array has the method. \<open>callee\<close> is
  the member path of the call in the source.
\<close>

fun forEach_val ::
  "string list \<Rightarrow> (jsval \<Rightarrow> 's \<Rightarrow> js_error + 's) \<Rightarrow> jsval \<Rightarrow> 's \<Rightarrow> js_error + 's" where
  "forEach_val callee f (Arr xs) s = forEach f xs s"
| "forEach_val callee f Undefined s = Inl (TypeError (ReadOfUndefined ''forEach''))"
| "forEach_val callee f Null s = Inl (TypeError (ReadOfNull ''forEach''))"
| "forEach_val callee f v s = Inl (TypeError (NotAFunction callee))"

section \<open>extractTextFromSlide\<close>

abbreviation newline :: string where
  "newline \<equiv> [CHR 0x0A]"

text \<open>The callback on a run: \<^verbatim>\<open>if (run["a:t"]) paragraphText.push(run["a:t"][0])\<close>.\<close>

definition run_step :: "jsval \<Rightarrow> jsval list \<Rightarrow> js_error + jsval list" where
  "run_step run paragraphText =
     (case get run ''a:t'' of
        Inl e \<Rightarrow> Inl e
      | Inr t \<Rightarrow>
          if truthy t then
            (case index0 t of
               Inl e \<Rightarrow> Inl e
             | Inr v \<Rightarrow> Inr (paragraphText @ [v]))
          else Inr paragraphText)"

text \<open>
  The array \<^verbatim>\<open>paragraphText\<close> of one paragraph when its last push is done: the run
  texts, a newline for a break, a newline for an empty paragraph or a paragraph end marker.
\<close>

definition paragraphText :: "jsval \<Rightarrow> js_error + jsval list" where
  "paragraphText paragraph =
     (case get paragraph ''a:r'' of
        Inl e \<Rightarrow> Inl e
      | Inr rs \<Rightarrow>
     (case (if truthy rs then forEach_val [''paragraph'', ''a:r'', ''forEach''] run_step rs [] else Inr []) of
        Inl e \<Rightarrow> Inl e
      | Inr pt1 \<Rightarrow>
     (case get paragraph ''a:br'' of
        Inl e \<Rightarrow> Inl e
      | Inr br \<Rightarrow>
     (let pt2 = (if truthy br then pt1 @ [Str newline] else pt1) in
      if length pt2 = 0 then Inr (pt2 @ [Str newline])
      else
        (case get paragraph ''a:endParaRPr'' of
           Inl e \<Rightarrow> Inl e
         | Inr epr \<Rightarrow> Inr (if truthy epr then pt2 @ [Str newline] else pt2))))))"

text \<open>The callback on a paragraph: the joined tokens are pushed when there is one.\<close>

definition paragraph_step :: "jsval \<Rightarrow> string list \<Rightarrow> js_error + string list" where
  "paragraph_step paragraph paragraphTexts =
     (case paragraphText paragraph of
        Inl e \<Rightarrow> Inl e
      | Inr pt \<Rightarrow>
          if length pt > 0 then
            (case js_join [] pt of
               Inl e \<Rightarrow> Inl e
             | Inr s \<Rightarrow> Inr (paragraphTexts @ [s]))
          else Inr paragraphTexts)"

text \<open>The callback on a text body; \<open>texts\<close> is the result array of the slide.\<close>

definition textBody_step :: "jsval \<Rightarrow> string list \<Rightarrow> js_error + string list" where
  "textBody_step textBody texts =
     (case get textBody ''a:p'' of
        Inl e \<Rightarrow> Inl e
      | Inr ps \<Rightarrow>
          if truthy ps then
            (case forEach_val [''textBody'', ''a:p'', ''forEach''] paragraph_step ps [] of
               Inl e \<Rightarrow> Inl e
             | Inr paragraphTexts \<Rightarrow>
                 if length paragraphTexts > 0
                 then Inr (texts @ [join newline paragraphTexts])
                 else Inr texts)
          else Inr texts)"

text \<open>The callback on a shape.\<close>

definition shape_step :: "jsval \<Rightarrow> string list \<Rightarrow> js_error + string list" where
  "shape_step shape texts =
     (case get shape ''p:txBody'' of
        Inl e \<Rightarrow> Inl e
      | Inr tbs \<Rightarrow>
          if truthy tbs then forEach_val [''shape'', ''p:txBody'', ''forEach''] textBody_step tbs texts else Inr texts)"

text \<open>
  The guard of the function reads \<^verbatim>\<open>slideData["p:sld"]\<close>, then its \<^verbatim>\<open>["p:cSld"]\<close>, then
  \<^verbatim>\<open>[0]["p:spTree"]\<close> of that, each only when the one before is truthy; \<open>spTree_of\<close> is
  \<^verbatim>\<open>slideData["p:sld"]["p:cSld"][0]["p:spTree"][0]\<close> when the guard holds and \<open>None\<close>
  when it does not.
\<close>

definition spTree_of :: "jsval \<Rightarrow> js_error + jsval option" where
  "spTree_of slideData =
     (case get slideData ''p:sld'' of
        Inl e \<Rightarrow> Inl e
      | Inr sld \<Rightarrow>
          if \<not> truthy sld then Inr None
          else
     (case get sld ''p:cSld'' of
        Inl e \<Rightarrow> Inl e
      | Inr c \<Rightarrow>
          if \<not> truthy c then Inr None
          else
     (case index0 c of
        Inl e \<Rightarrow> Inl e
      | Inr c0 \<Rightarrow>
     (case get c0 ''p:spTree'' of
        Inl e \<Rightarrow> Inl e
      | Inr t \<Rightarrow>
          if \<not> truthy t then Inr None
          else
     (case index0 t of
        Inl e \<Rightarrow> Inl e
      | Inr spTree \<Rightarrow> Inr (Some spTree))))))"

definition extractTextFromSlide :: "jsval \<Rightarrow> js_error + string list" where
  "extractTextFromSlide slideData =
     (case spTree_of slideData of
        Inl e \<Rightarrow> Inl e
      | Inr None \<Rightarrow> Inr []
      | Inr (Some spTree) \<Rightarrow>
          (case get spTree ''p:sp'' of
             Inl e \<Rightarrow> Inl e
           | Inr sps \<Rightarrow>
               if truthy sps then forEach_val [''spTree'', ''p:sp'', ''forEach''] shape_step sps [] else Inr []))"

section \<open>getSlideRelations\<close>

text \<open>\<^verbatim>\<open>s.endsWith(t)\<close>: the last \<open>length t\<close> characters of \<open>s\<close> are \<open>t\<close>.\<close>

definition endsWith :: "string \<Rightarrow> string \<Rightarrow> bool" where
  "endsWith s t = (length t \<le> length s \<and> drop (length s - length t) s = t)"

text \<open>
  The callback of the filter, \<^verbatim>\<open>rel["$"]["Type"].endsWith("/slide")\<close>; only a string has
  the method.
\<close>

definition is_slide :: "jsval \<Rightarrow> js_error + bool" where
  "is_slide rel =
     (case get rel ''$'' of
        Inl e \<Rightarrow> Inl e
      | Inr a \<Rightarrow>
     (case get a ''Type'' of
        Inl e \<Rightarrow> Inl e
      | Inr t \<Rightarrow>
          (case t of
             Str s \<Rightarrow> Inr (endsWith s ''/slide'')
           | Undefined \<Rightarrow> Inl (TypeError (ReadOfUndefined ''endsWith''))
           | Null \<Rightarrow> Inl (TypeError (ReadOfNull ''endsWith''))
           | _ \<Rightarrow> Inl (TypeError (NotAFunction [''rel'', ''$'', ''Type'', ''endsWith''])))))"

text \<open>
  The interface declares both fields of a relation as strings; at run time each is whatever
  the attribute read gives, \<^verbatim>\<open>undefined\<close> for a missing attribute.
\<close>

record SlideRelation =
  relation_id :: jsval
  target :: jsval

text \<open>The callback of the map, \<^verbatim>\<open>{ id: rel["$"]["Id"], target: rel["$"]["Target"] }\<close>.\<close>

definition to_relation :: "jsval \<Rightarrow> js_error + SlideRelation" where
  "to_relation rel =
     (case get rel ''$'' of
        Inl e \<Rightarrow> Inl e
      | Inr a \<Rightarrow>
     (case get a ''Id'' of
        Inl e \<Rightarrow> Inl e
      | Inr i \<Rightarrow>
     (case get rel ''$'' of
        Inl e \<Rightarrow> Inl e
      | Inr a' \<Rightarrow>
     (case get a' ''Target'' of
        Inl e \<Rightarrow> Inl e
      | Inr t \<Rightarrow> Inr \<lparr>relation_id = i, target = t\<rparr>))))"

text \<open>\<^verbatim>\<open>xs.filter(p)\<close> and \<^verbatim>\<open>xs.map(f)\<close> with callbacks that may throw.\<close>

fun filter_js :: "('a \<Rightarrow> js_error + bool) \<Rightarrow> 'a list \<Rightarrow> js_error + 'a list" where
  "filter_js p [] = Inr []"
| "filter_js p (x # xs) =
     (case p x of
        Inl e \<Rightarrow> Inl e
      | Inr b \<Rightarrow>
          (case filter_js p xs of
             Inl e \<Rightarrow> Inl e
           | Inr ys \<Rightarrow> Inr (if b then x # ys else ys)))"

fun map_js :: "('a \<Rightarrow> js_error + 'b) \<Rightarrow> 'a list \<Rightarrow> js_error + 'b list" where
  "map_js f [] = Inr []"
| "map_js f (x # xs) =
     (case f x of
        Inl e \<Rightarrow> Inl e
      | Inr y \<Rightarrow>
          (case map_js f xs of
             Inl e \<Rightarrow> Inl e
           | Inr ys \<Rightarrow> Inr (y # ys)))"

definition getSlideRelations :: "jsval \<Rightarrow> js_error + SlideRelation list" where
  "getSlideRelations relationshipsData =
     (case get relationshipsData ''Relationships'' of
        Inl e \<Rightarrow> Inl e
      | Inr root \<Rightarrow>
     (case get root ''Relationship'' of
        Inl e \<Rightarrow> Inl e
      | Inr relationships \<Rightarrow>
          (case relationships of
             Arr rels \<Rightarrow>
               (case filter_js is_slide rels of
                  Inl e \<Rightarrow> Inl e
                | Inr kept \<Rightarrow> map_js to_relation kept)
           | Undefined \<Rightarrow> Inl (TypeError (ReadOfUndefined ''filter''))
           | Null \<Rightarrow> Inl (TypeError (ReadOfNull ''filter''))
           | _ \<Rightarrow> Inl (TypeError (NotAFunction [''relationships'', ''filter''])))))"

section \<open>parse\<close>

text \<open>
  An entry of the opened archive: its path, and what reading its stream to the end gives
  (the data, or the error the stream emits).
\<close>

record File =
  file_path :: string
  file_stream :: "js_error + string"

record Part =
  path :: string
  xml :: string
  parsed :: jsval

record ParsedSlide = Part +
  slide_id :: jsval

record ParsedPresentation =
  presentation :: Part
  relationships :: Part
  slides :: "ParsedSlide list"

definition getFileContent :: "File \<Rightarrow> js_error + string" where
  "getFileContent file = file_stream file"

text \<open>\<^verbatim>\<open>xs.find(p)\<close> with a callback that may throw.\<close>

fun find_js :: "('a \<Rightarrow> js_error + bool) \<Rightarrow> 'a list \<Rightarrow> js_error + 'a option" where
  "find_js p [] = Inr None"
| "find_js p (x # xs) =
     (case p x of
        Inl e \<Rightarrow> Inl e
      | Inr b \<Rightarrow> if b then Inr (Some x) else find_js p xs)"

text \<open>The template literal \<^verbatim>\<open>`ppt/${relation.target}`\<close>.\<close>

definition target_path :: "SlideRelation \<Rightarrow> js_error + string" where
  "target_path relation =
     (case toString (target relation) of Inl e \<Rightarrow> Inl e | Inr t \<Rightarrow> Inr (''ppt/'' @ t))"

text \<open>
  The callback that loads the slide of one relation. The XML parser is a library; it is the
  parameter \<open>parseXmlContent\<close>, which gives a tree or the parser's error. The template
  literal is evaluated in the callback of \<^verbatim>\<open>find\<close>, once for each entry looked at. The
  callback returns \<^verbatim>\<open>null\<close> (\<open>None\<close>) when no entry has the path.
\<close>

definition load_slide ::
  "(string \<Rightarrow> js_error + jsval) \<Rightarrow> File list \<Rightarrow> SlideRelation \<Rightarrow> js_error + ParsedSlide option" where
  "load_slide parseXmlContent files relation =
     (case find_js (\<lambda>f. case target_path relation of
                              Inl e \<Rightarrow> Inl e
                            | Inr p \<Rightarrow> Inr (file_path f = p)) files of
        Inl e \<Rightarrow> Inl e
      | Inr None \<Rightarrow> Inr None
      | Inr (Some slideFile) \<Rightarrow>
          (case getFileContent slideFile of
             Inl e \<Rightarrow> Inl e
           | Inr slideContent \<Rightarrow>
               (case parseXmlContent slideContent of
                  Inl e \<Rightarrow> Inl e
                | Inr tree \<Rightarrow>
                    Inr (Some \<lparr>path = file_path slideFile, xml = slideContent,
                               parsed = tree, slide_id = relation_id relation\<rparr>))))"

text \<open>
  \<^verbatim>\<open>Promise.all\<close>: the results in the order of the promises, or a rejection. When several
  promises reject, the one reported depends on timing; the model reports the first in list
  order.
\<close>

fun promise_all :: "(js_error + 'a) list \<Rightarrow> js_error + 'a list" where
  "promise_all [] = Inr []"
| "promise_all (r # rs) =
     (case r of
        Inl e \<Rightarrow> Inl e
      | Inr v \<Rightarrow>
          (case promise_all rs of
             Inl e \<Rightarrow> Inl e
           | Inr vs \<Rightarrow> Inr (v # vs)))"

text \<open>\<^verbatim>\<open>slides.filter((slide) => slide !== null)\<close>.\<close>

fun non_null :: "'a option list \<Rightarrow> 'a list" where
  "non_null [] = []"
| "non_null (None # xs) = non_null xs"
| "non_null (Some x # xs) = x # non_null xs"

text \<open>
  The body of the \<^verbatim>\<open>try\<close> block. \<open>opened\<close> is what opening the archive gives: its
  entries, or an error.
\<close>

definition parse_try ::
  "(string \<Rightarrow> js_error + jsval) \<Rightarrow> js_error + File list \<Rightarrow> js_error + ParsedPresentation" where
  "parse_try parseXmlContent opened =
     (case opened of
        Inl e \<Rightarrow> Inl e
      | Inr files \<Rightarrow>
     (case (find (\<lambda>d. file_path d = ''ppt/presentation.xml'') files,
            find (\<lambda>d. file_path d = ''ppt/_rels/presentation.xml.rels'') files) of
        (Some presentationXml, Some slideRelationsXml) \<Rightarrow>
          (case getFileContent presentationXml of
             Inl e \<Rightarrow> Inl e
           | Inr presentationContent \<Rightarrow>
          (case getFileContent slideRelationsXml of
             Inl e \<Rightarrow> Inl e
           | Inr relationshipsContent \<Rightarrow>
          (case parseXmlContent presentationContent of
             Inl e \<Rightarrow> Inl e
           | Inr presentationData \<Rightarrow>
          (case parseXmlContent relationshipsContent of
             Inl e \<Rightarrow> Inl e
           | Inr relationshipsData \<Rightarrow>
          (case getSlideRelations relationshipsData of
             Inl e \<Rightarrow> Inl e
           | Inr slideRelations \<Rightarrow>
          (case promise_all (map (load_slide parseXmlContent files) slideRelations) of
             Inl e \<Rightarrow> Inl e
           | Inr loaded \<Rightarrow>
               Inr \<lparr>presentation =
                      \<lparr>path = ''ppt/presentation.xml'', xml = presentationContent,
                       parsed = presentationData\<rparr>,
                    relationships =
                      \<lparr>path = ''ppt/_rels/presentation.xml.rels'', xml = relationshipsContent,
                       parsed = relationshipsData\<rparr>,
                    slides = non_null loaded\<rparr>))))))
      | _ \<Rightarrow> Inl (Error ''Invalid PPTX file structure'')))"

text \<open>
  The \<^verbatim>\<open>catch\<close> wraps every error of the body; \<open>engine\<close> words the messages of the
  engine's own errors.
\<close>

definition parse ::
  "(failed_operation \<Rightarrow> string) \<Rightarrow> (string \<Rightarrow> js_error + jsval) \<Rightarrow> js_error + File list
     \<Rightarrow> js_error + ParsedPresentation" where
  "parse engine parseXmlContent opened =
     (case parse_try parseXmlContent opened of
        Inl error \<Rightarrow> Inl (Error (''Failed to parse PPTX: '' @ message engine error))
      | Inr result \<Rightarrow> Inr result)"

section \<open>Vocabulary of the properties\<close>

text \<open>\<open>lacks v k\<close>: the test \<^verbatim>\<open>if (v[k])\<close> runs and fails.\<close>

definition lacks :: "jsval \<Rightarrow> string \<Rightarrow> bool" where
  "lacks v k \<longleftrightarrow> (case get v k of Inl e \<Rightarrow> False | Inr x \<Rightarrow> \<not> truthy x)"

text \<open>
  The trees that the XML parser builds with its default options. An element with neither
  attributes nor child elements is the string of its text (the empty string for an empty
  element). Any other element is an object: under \<^verbatim>\<open>$\<close> the object of its attributes,
  under \<^verbatim>\<open>_\<close> its text, and under each tag name the non-empty array of the child elements
  of that name, in document order. The document is an object with one key, the name of the
  root element.
\<close>

fun is_Str :: "jsval \<Rightarrow> bool" where
  "is_Str (Str s) = True"
| "is_Str v = False"

fun attributes :: "jsval \<Rightarrow> bool" where
  "attributes (Obj kvs) = list_all (\<lambda>kv. is_Str (snd kv)) kvs"
| "attributes v = False"

fun element :: "jsval \<Rightarrow> bool"
  and elements :: "jsval list \<Rightarrow> bool"
  and members :: "(string \<times> jsval) list \<Rightarrow> bool" where
  "element (Str s) = True"
| "element (Obj kvs) = members kvs"
| "element v = False"
| "elements [] = True"
| "elements (x # xs) = (element x \<and> elements xs)"
| "members [] = True"
| "members ((k, v) # kvs) =
     ((if k = ''$'' then attributes v
       else if k = ''_'' then is_Str v
       else (case v of Arr xs \<Rightarrow> xs \<noteq> [] \<and> elements xs | _ \<Rightarrow> False))
      \<and> members kvs)"

fun document :: "jsval \<Rightarrow> bool" where
  "document (Obj [(name, e)]) = element e"
| "document v = False"

text \<open>
  \<open>plain v\<close>: no object of the value has a key \<^verbatim>\<open>toString\<close> (in a tree of the XML parser:
  no element and no attribute has that name), so no conversion to a string raises.
\<close>

fun plain :: "jsval \<Rightarrow> bool"
  and plains :: "jsval list \<Rightarrow> bool"
  and plain_members :: "(string \<times> jsval) list \<Rightarrow> bool" where
  "plain (Arr xs) = plains xs"
| "plain (Obj kvs) = plain_members kvs"
| "plain v = True"
| "plains [] = True"
| "plains (x # xs) = (plain x \<and> plains xs)"
| "plain_members [] = True"
| "plain_members ((k, v) # kvs) = (k \<noteq> ''toString'' \<and> plain v \<and> plain_members kvs)"

text \<open>The text bodies of a shape, and whether a text body passes \<^verbatim>\<open>if (textBody["a:p"])\<close>.\<close>

definition textBodies :: "jsval \<Rightarrow> jsval list" where
  "textBodies shape = (case get shape ''p:txBody'' of Inr (Arr tbs) \<Rightarrow> tbs | _ \<Rightarrow> [])"

definition has_paragraphs :: "jsval \<Rightarrow> bool" where
  "has_paragraphs textBody = (case get textBody ''a:p'' of Inr ps \<Rightarrow> truthy ps | Inl e \<Rightarrow> False)"

text \<open>
  \<open>paragraph_string p s\<close>: the paragraph collects at least one token and \<open>s\<close> is their
  join. \<open>text_block tb t\<close>: the text body pushes exactly the block \<open>t\<close>.
\<close>

definition paragraph_string :: "jsval \<Rightarrow> string \<Rightarrow> bool" where
  "paragraph_string p s \<longleftrightarrow>
     (\<exists>toks. paragraphText p = Inr toks \<and> toks \<noteq> [] \<and> js_join [] toks = Inr s)"

definition text_block :: "jsval \<Rightarrow> string \<Rightarrow> bool" where
  "text_block textBody t \<longleftrightarrow> textBody_step textBody [] = Inr [t]"

text \<open>A relation resolves when the archive has an entry at \<^verbatim>\<open>ppt/${relation.target}\<close>.\<close>

definition resolves :: "File list \<Rightarrow> SlideRelation \<Rightarrow> bool" where
  "resolves files relation \<longleftrightarrow>
     (case target_path relation of
        Inl e \<Rightarrow> False
      | Inr p \<Rightarrow> find (\<lambda>f. file_path f = p) files \<noteq> None)"

section \<open>An example slide\<close>

text \<open>
  Three shapes: one with a text body of one paragraph, one without a text body, one whose
  text body has no paragraph.
\<close>

definition example_shapes :: "jsval list" where
  "example_shapes =
     [Obj [(''p:txBody'',
            Arr [Obj [(''a:p'', Arr [Obj [(''a:r'', Arr [Obj [(''a:t'', Arr [Str ''Title''])]])]])]])],
      Obj [(''p:nvSpPr'', Arr [Str []])],
      Obj [(''p:txBody'', Arr [Obj [(''a:bodyPr'', Arr [Str []])]])]]"

definition example_slide :: jsval where
  "example_slide =
     Obj [(''p:sld'',
           Obj [(''p:cSld'', Arr [Obj [(''p:spTree'', Arr [Obj [(''p:sp'', Arr example_shapes)]])]])])]"

text \<open>
  A slide tree in which the text element of the only run is an object with a child list
  under the key \<^verbatim>\<open>toString\<close>, as a text element with a child element of that name has.
\<close>

definition example_toString_paragraph :: jsval where
  "example_toString_paragraph =
     Obj [(''a:r'', Arr [Obj [(''a:t'', Arr [Obj [(''toString'', Arr [Str []])]])]])]"

definition example_toString_slide :: jsval where
  "example_toString_slide =
     Obj [(''p:sld'',
           Obj [(''p:cSld'',
                 Arr [Obj [(''p:spTree'',
                            Arr [Obj [(''p:sp'',
                                       Arr [Obj [(''p:txBody'',
                                                  Arr [Obj [(''a:p'',
                                                             Arr [example_toString_paragraph])]])]])]])]])])]"

section \<open>An example archive\<close>

text \<open>
  A relationships tree with a slide master and two slides, and an archive that holds the
  two required parts and the second slide only. The parser of the example maps the three
  contents to their trees.
\<close>

definition example_record :: "string \<Rightarrow> string \<Rightarrow> string \<Rightarrow> jsval" where
  "example_record i ty tg = Obj [(''$'', Obj [(''Id'', Str i), (''Type'', Str ty), (''Target'', Str tg)])]"

definition example_records :: "jsval list" where
  "example_records =
     [example_record ''rId1'' ''relationships/slideMaster'' ''slideMasters/slideMaster1.xml'',
      example_record ''rId2'' ''relationships/slide'' ''slides/slide1.xml'',
      example_record ''rId3'' ''relationships/slide'' ''slides/slide2.xml'',
      example_record ''rId4'' ''relationships/slideLayout'' ''slideLayouts/slideLayout1.xml'']"

definition example_relationships :: jsval where
  "example_relationships = Obj [(''Relationships'', Obj [(''Relationship'', Arr example_records)])]"

definition example_files :: "File list" where
  "example_files =
     [\<lparr>file_path = ''ppt/presentation.xml'', file_stream = Inr ''P''\<rparr>,
      \<lparr>file_path = ''ppt/_rels/presentation.xml.rels'', file_stream = Inr ''R''\<rparr>,
      \<lparr>file_path = ''ppt/slides/slide2.xml'', file_stream = Inr ''S''\<rparr>]"

definition example_parser :: "string \<Rightarrow> js_error + jsval" where
  "example_parser content =
     (if content = ''R'' then Inr example_relationships
      else if content = ''S'' then Inr example_slide
      else Inr (Obj [(''p:presentation'', Str [])]))"

section \<open>Paragraph tokens\<close>

lemma lacksD: "lacks v k \<Longrightarrow> \<exists>x. get v k = Inr x \<and> \<not> truthy x"
  by (auto simp: lacks_def split: sum.splits)

text \<open>
  Claim C5. A paragraph with two runs whose texts are \<open>s1\<close> and \<open>s2\<close>, without a break
  marker and without a paragraph end marker, collects the two texts in order and is pushed
  as their concatenation with nothing between them; for the texts \<^verbatim>\<open>"Hello "\<close> and
  \<^verbatim>\<open>"World"\<close> the string pushed is \<^verbatim>\<open>"Hello World"\<close>, the blank kept.
\<close>

theorem run_texts_concatenated:
  assumes "get paragraph ''a:r'' = Inr (Arr [run1, run2])"
    and "get run1 ''a:t'' = Inr (Arr (Str s1 # rest1))"
    and "get run2 ''a:t'' = Inr (Arr (Str s2 # rest2))"
    and "lacks paragraph ''a:br''"
    and "lacks paragraph ''a:endParaRPr''"
  shows "paragraphText paragraph = Inr [Str s1, Str s2]
       \<and> paragraph_step paragraph paragraphTexts = Inr (paragraphTexts @ [s1 @ s2])
       \<and> (s1 = ''Hello '' \<and> s2 = ''World'' \<longrightarrow>
            paragraph_step paragraph paragraphTexts = Inr (paragraphTexts @ [''Hello World'']))"
proof -
  obtain br epr where "get paragraph ''a:br'' = Inr br" "\<not> truthy br"
    "get paragraph ''a:endParaRPr'' = Inr epr" "\<not> truthy epr"
    using assms(4,5) by (auto dest!: lacksD)
  with assms(1-3) have "paragraphText paragraph = Inr [Str s1, Str s2]"
    by (simp add: paragraphText_def run_step_def)
  then show ?thesis
    by (auto simp: paragraph_step_def js_join_def)
qed

theorem run_texts_concatenated_witness:
  "paragraph_step
     (Obj [(''a:r'', Arr [Obj [(''a:t'', Arr [Str ''Hello ''])],
                          Obj [(''a:t'', Arr [Str ''World''])]])]) []
   = Inr [''Hello World'']"
  using run_texts_concatenated[of
      "Obj [(''a:r'', Arr [Obj [(''a:t'', Arr [Str ''Hello ''])],
                           Obj [(''a:t'', Arr [Str ''World''])]])]"
      "Obj [(''a:t'', Arr [Str ''Hello ''])]" "Obj [(''a:t'', Arr [Str ''World''])]"
      "''Hello ''" "[]" "''World''" "[]" "[]"]
  by (simp add: lacks_def)

text \<open>
  Claim C6. A paragraph with one run of text \<open>s\<close> and a break marker, without a paragraph
  end marker, collects the text and then a newline; for the text \<^verbatim>\<open>"Line1"\<close> the string
  pushed is \<^verbatim>\<open>"Line1\n"\<close>.
\<close>

theorem break_appends_newline:
  assumes "get paragraph ''a:r'' = Inr (Arr [run])"
    and "get run ''a:t'' = Inr (Arr (Str s # rest))"
    and "get paragraph ''a:br'' = Inr br" and "truthy br"
    and "lacks paragraph ''a:endParaRPr''"
  shows "paragraphText paragraph = Inr [Str s, Str newline]
       \<and> paragraph_step paragraph paragraphTexts = Inr (paragraphTexts @ [s @ newline])
       \<and> (s = ''Line1'' \<longrightarrow>
            paragraph_step paragraph paragraphTexts
              = Inr (paragraphTexts @ [''Line1'' @ newline]))"
proof -
  obtain epr where "get paragraph ''a:endParaRPr'' = Inr epr" "\<not> truthy epr"
    using assms(5) by (auto dest!: lacksD)
  with assms(1-4) have "paragraphText paragraph = Inr [Str s, Str newline]"
    by (simp add: paragraphText_def run_step_def)
  then show ?thesis
    by (auto simp: paragraph_step_def js_join_def)
qed

theorem break_appends_newline_witness:
  "paragraph_step
     (Obj [(''a:r'', Arr [Obj [(''a:t'', Arr [Str ''Line1''])]]), (''a:br'', Arr [Str []])]) []
   = Inr [''Line1'' @ newline]"
  using break_appends_newline[of
      "Obj [(''a:r'', Arr [Obj [(''a:t'', Arr [Str ''Line1''])]]), (''a:br'', Arr [Str []])]"
      "Obj [(''a:t'', Arr [Str ''Line1''])]" "''Line1''" "[]" "Arr [Str []]" "[]"]
  by (simp add: lacks_def)

text \<open>
  Claim C4. A text body with two paragraphs, the first with a single run of text \<open>s\<close> and
  neither a break marker nor a paragraph end marker, the second without runs and without a
  break marker: the second paragraph collects a lone newline, the paragraph strings are
  \<open>s\<close> and a newline, and the block pushed is their join with a newline between them. For
  the text \<^verbatim>\<open>"Hello"\<close> the block is \<^verbatim>\<open>"Hello\n\n"\<close>.
\<close>

theorem paragraph_join_law:
  assumes "get textBody ''a:p'' = Inr (Arr [p1, p2])"
    and "get p1 ''a:r'' = Inr (Arr [run])"
    and "get run ''a:t'' = Inr (Arr (Str s # rest))"
    and "lacks p1 ''a:br''"
    and "lacks p1 ''a:endParaRPr''"
    and "lacks p2 ''a:r''"
    and "lacks p2 ''a:br''"
  shows "paragraphText p2 = Inr [Str newline]
       \<and> forEach paragraph_step [p1, p2] [] = Inr [s, newline]
       \<and> textBody_step textBody texts = Inr (texts @ [s @ newline @ newline])
       \<and> (s = ''Hello'' \<longrightarrow>
            textBody_step textBody texts = Inr (texts @ [''Hello'' @ newline @ newline]))"
proof -
  obtain br1 epr1 where p1: "get p1 ''a:br'' = Inr br1" "\<not> truthy br1"
    "get p1 ''a:endParaRPr'' = Inr epr1" "\<not> truthy epr1"
    using assms(4,5) by (auto dest!: lacksD)
  obtain rs2 br2 where p2: "get p2 ''a:r'' = Inr rs2" "\<not> truthy rs2"
    "get p2 ''a:br'' = Inr br2" "\<not> truthy br2"
    using assms(6,7) by (auto dest!: lacksD)
  from p1 assms(2,3) have t1: "paragraphText p1 = Inr [Str s]"
    by (simp add: paragraphText_def run_step_def)
  from p2 have t2: "paragraphText p2 = Inr [Str newline]"
    by (simp add: paragraphText_def)
  from t1 t2 have ps: "forEach paragraph_step [p1, p2] [] = Inr [s, newline]"
    by (simp add: paragraph_step_def js_join_def)
  with assms(1) have "textBody_step textBody texts = Inr (texts @ [s @ newline @ newline])"
    by (simp add: textBody_step_def)
  with t2 ps show ?thesis by simp
qed

theorem paragraph_join_law_witness:
  "textBody_step
     (Obj [(''a:p'', Arr [Obj [(''a:r'', Arr [Obj [(''a:t'', Arr [Str ''Hello''])]])], Str []])]) []
   = Inr [''Hello'' @ newline @ newline]"
  using paragraph_join_law[of
      "Obj [(''a:p'', Arr [Obj [(''a:r'', Arr [Obj [(''a:t'', Arr [Str ''Hello''])]])], Str []])]"
      "Obj [(''a:r'', Arr [Obj [(''a:t'', Arr [Str ''Hello''])]])]" "Str []"
      "Obj [(''a:t'', Arr [Str ''Hello''])]" "''Hello''" "[]" "[]"]
  by (simp add: lacks_def)

section \<open>The extractor on trees of the XML parser\<close>

lemma members_map_of:
  "members kvs \<Longrightarrow> k \<noteq> ''$'' \<Longrightarrow> k \<noteq> ''_'' \<Longrightarrow>
   map_of kvs k = None \<or> (\<exists>xs. map_of kvs k = Some (Arr xs) \<and> xs \<noteq> [] \<and> elements xs)"
  by (induction kvs) (auto split: jsval.splits if_splits)

lemma element_get:
  assumes "element v" "k \<noteq> ''$''" "k \<noteq> ''_''"
  shows "get v k = Inr Undefined \<or> (\<exists>xs. get v k = Inr (Arr xs) \<and> xs \<noteq> [] \<and> elements xs)"
proof (cases v)
  case (Obj kvs)
  with assms members_map_of[of kvs k] show ?thesis by auto
qed (use assms in auto)

lemma element_get_tag:
  assumes "element v"
    and "k \<in> {''p:cSld'', ''p:spTree'', ''p:sp'', ''p:txBody'', ''a:p'', ''a:r'', ''a:t'',
               ''a:br'', ''a:endParaRPr''}"
  shows "get v k = Inr Undefined \<or> (\<exists>xs. get v k = Inr (Arr xs) \<and> xs \<noteq> [] \<and> elements xs)"
  using assms by (intro element_get) auto

lemma elements_iff: "elements xs \<longleftrightarrow> (\<forall>x\<in>set xs. element x)"
  by (induction xs) auto

lemma index0_elements:
  "xs \<noteq> [] \<Longrightarrow> elements xs \<Longrightarrow> \<exists>x. index0 (Arr xs) = Inr x \<and> element x"
  by (cases xs) auto

subsection \<open>Values without a key toString\<close>

lemma plains_iff: "plains xs \<longleftrightarrow> (\<forall>x\<in>set xs. plain x)"
  by (induction xs) auto

lemma plains_append: "plains (xs @ ys) \<longleftrightarrow> plains xs \<and> plains ys"
  by (induction xs) auto

lemma plain_members_map_of:
  "plain_members kvs \<Longrightarrow> map_of kvs ''toString'' = None
     \<and> (\<forall>k v. map_of kvs k = Some v \<longrightarrow> plain v)"
  by (induction kvs) auto

lemma plain_get: "plain v \<Longrightarrow> get v k = Inr x \<Longrightarrow> plain x"
  by (cases v) (auto dest: plain_members_map_of split: option.splits)

lemma plain_index0: "plain v \<Longrightarrow> index0 v = Inr x \<Longrightarrow> plain x"
  by (cases v) (auto dest: plain_members_map_of split: option.splits list.splits)

lemma plain_toString:
  "plain v \<Longrightarrow> \<exists>s. toString v = Inr s"
  "plains xs \<Longrightarrow> \<exists>ss. elementStrings xs = Inr ss"
proof (induction v and xs rule: toString_elementStrings.induct)
  case (5 kvs)
  then show ?case by (auto dest: plain_members_map_of)
next
  case (7 x xs)
  then show ?case by (cases x) auto
qed auto

lemma plains_js_join: "plains xs \<Longrightarrow> \<exists>s. js_join sep xs = Inr s"
  using plain_toString(2)[of xs] by (auto simp: js_join_def)

subsection \<open>Loops that only append\<close>

text \<open>
  A callback that only appends to the array gives, on any array, what it gives on the empty
  one, appended; so does the loop over such a callback.
\<close>

lemma forEach_frame:
  assumes "\<And>x acc. f x acc = (case f x [] of Inl e \<Rightarrow> Inl e | Inr ys \<Rightarrow> Inr (acc @ ys))"
  shows "forEach f xs acc = (case forEach f xs [] of Inl e \<Rightarrow> Inl e | Inr ys \<Rightarrow> Inr (acc @ ys))"
proof (induction xs arbitrary: acc)
  case Nil
  then show ?case by simp
next
  case (Cons x xs)
  show ?case
  proof (cases "f x []")
    case (Inl e)
    with assms[of x acc] show ?thesis by simp
  next
    case (Inr ys)
    with assms[of x acc] have a: "f x acc = Inr (acc @ ys)" by simp
    show ?thesis
    proof (cases "forEach f xs []")
      case (Inl e)
      with Inr a Cons.IH[of ys] Cons.IH[of "acc @ ys"] show ?thesis by simp
    next
      case r: (Inr zs)
      with Inr a Cons.IH[of ys] Cons.IH[of "acc @ ys"] show ?thesis by simp
    qed
  qed
qed

lemma forEach_Cons:
  assumes "\<And>x acc. f x acc = (case f x [] of Inl e \<Rightarrow> Inl e | Inr ys \<Rightarrow> Inr (acc @ ys))"
  shows "forEach f (x # xs) [] =
     (case f x [] of
        Inl e \<Rightarrow> Inl e
      | Inr ys \<Rightarrow> (case forEach f xs [] of Inl e \<Rightarrow> Inl e | Inr zs \<Rightarrow> Inr (ys @ zs)))"
proof (cases "f x []")
  case (Inl e)
  then show ?thesis by simp
next
  case (Inr ys)
  then show ?thesis
    using forEach_frame[where f = f and xs = xs and acc = ys, OF assms] by simp
qed

lemma forEach_Inr:
  assumes fr: "\<And>x acc. f x acc = (case f x [] of Inl e \<Rightarrow> Inl e | Inr ys \<Rightarrow> Inr (acc @ ys))"
    and "forEach f xs [] = Inr r"
    and "\<And>x ys. x \<in> set xs \<Longrightarrow> f x [] = Inr ys \<Longrightarrow> list_all2 R (g x) ys"
  shows "list_all2 R (concat (map g xs)) r"
  using assms(2,3)
proof (induction xs arbitrary: r)
  case Nil
  then show ?case by simp
next
  case (Cons x xs)
  from Cons.prems(1) obtain ys zs where yz: "f x [] = Inr ys" "forEach f xs [] = Inr zs"
    "r = ys @ zs"
    unfolding forEach_Cons[of f, OF fr] by (auto split: sum.splits)
  have "list_all2 R (g x) ys" using Cons.prems(2) yz(1) by simp
  moreover have "list_all2 R (concat (map g xs)) zs"
    using Cons.IH[OF yz(2)] Cons.prems(2) by simp
  ultimately show ?case using yz(3) by (simp add: list_all2_appendI)
qed

lemma forEach_total:
  assumes fr: "\<And>x acc. f x acc = (case f x [] of Inl e \<Rightarrow> Inl e | Inr ys \<Rightarrow> Inr (acc @ ys))"
    and "\<And>x. x \<in> set xs \<Longrightarrow> \<exists>ys. f x [] = Inr ys"
  shows "\<exists>r. forEach f xs [] = Inr r"
  using assms(2)
proof (induction xs)
  case Nil
  then show ?case by simp
next
  case (Cons x xs)
  then obtain ys zs where "f x [] = Inr ys" "forEach f xs [] = Inr zs"
    by fastforce
  then show ?case unfolding forEach_Cons[of f, OF fr] by simp
qed

subsection \<open>Runs and paragraphs\<close>

lemma run_step_element:
  assumes "element run"
  shows "\<exists>ys. run_step run pt = Inr (pt @ ys)"
proof -
  consider "get run ''a:t'' = Inr Undefined"
    | xs where "get run ''a:t'' = Inr (Arr xs)" "xs \<noteq> []"
    using element_get_tag[OF assms, of "''a:t''"] by auto
  then show ?thesis
  proof cases
    case 1
    then show ?thesis by (simp add: run_step_def)
  next
    case 2
    then show ?thesis by (cases xs) (simp_all add: run_step_def)
  qed
qed

lemma forEach_run_step:
  "elements runs \<Longrightarrow> \<exists>ys. forEach run_step runs pt = Inr (pt @ ys)"
proof (induction runs arbitrary: pt)
  case Nil
  then show ?case by simp
next
  case (Cons r rs)
  then obtain ys where ys: "run_step r pt = Inr (pt @ ys)"
    using run_step_element[of r pt] by auto
  from Cons obtain zs where "forEach run_step rs (pt @ ys) = Inr ((pt @ ys) @ zs)"
    by fastforce
  with ys show ?case by simp
qed

lemma run_step_plain:
  assumes "plain run" "plains pt" "run_step run pt = Inr pt'"
  shows "plains pt'"
proof -
  from assms(3) obtain t where t: "get run ''a:t'' = Inr t"
    by (auto simp: run_step_def split: sum.splits)
  then have pt: "plain t" using assms(1) plain_get by blast
  show ?thesis
  proof (cases "truthy t")
    case True
    with t assms(3) obtain v where v: "index0 t = Inr v" "pt' = pt @ [v]"
      by (auto simp: run_step_def split: sum.splits)
    with pt have "plain v" using plain_index0 by blast
    with v(2) assms(2) show ?thesis by (simp add: plains_append)
  next
    case False
    with t assms(2,3) show ?thesis by (simp add: run_step_def)
  qed
qed

lemma forEach_run_step_plain:
  "plains runs \<Longrightarrow> plains pt \<Longrightarrow> forEach run_step runs pt = Inr pt' \<Longrightarrow> plains pt'"
proof (induction runs arbitrary: pt)
  case Nil
  then show ?case by simp
next
  case (Cons r rs)
  from Cons.prems(3) obtain pt1 where s: "run_step r pt = Inr pt1" "forEach run_step rs pt1 = Inr pt'"
    by (auto split: sum.splits)
  from Cons.prems(1,2) s(1) have "plains pt1" using run_step_plain by auto
  with Cons.IH[OF _ _ s(2)] Cons.prems(1) show ?case by simp
qed

text \<open>Whatever the paragraph, the tokens it collects are never none.\<close>

lemma paragraphText_nonempty: "paragraphText p = Inr toks \<Longrightarrow> toks \<noteq> []"
  by (auto simp: paragraphText_def Let_def split: sum.splits if_splits)

lemma paragraphText_element:
  assumes "element p"
  shows "\<exists>toks. paragraphText p = Inr toks \<and> toks \<noteq> []"
proof -
  obtain pt1 where pt1: "get p ''a:r'' = Inr Undefined \<and> pt1 = []
      \<or> (\<exists>rs. get p ''a:r'' = Inr (Arr rs) \<and> forEach run_step rs [] = Inr pt1)"
    using element_get_tag[OF assms, of "''a:r''"] forEach_run_step[of _ "[]"] by fastforce
  obtain br where br: "get p ''a:br'' = Inr br"
    using element_get_tag[OF assms, of "''a:br''"] by auto
  obtain epr where epr: "get p ''a:endParaRPr'' = Inr epr"
    using element_get_tag[OF assms, of "''a:endParaRPr''"] by auto
  from pt1 br epr have "\<exists>toks. paragraphText p = Inr toks"
    by (auto simp: paragraphText_def Let_def)
  then show ?thesis using paragraphText_nonempty by blast
qed

lemma paragraphText_plain:
  assumes "plain p" "paragraphText p = Inr toks"
  shows "plains toks"
proof -
  from assms(2) obtain rs pt1 where
    rs: "get p ''a:r'' = Inr rs"
    and pt1: "(if truthy rs then forEach_val [''paragraph'', ''a:r'', ''forEach''] run_step rs []
               else Inr []) = Inr pt1"
    by (auto simp: paragraphText_def split: sum.splits)
  have "plains pt1"
  proof (cases "truthy rs")
    case True
    with pt1 obtain runs where r: "rs = Arr runs" "forEach run_step runs [] = Inr pt1"
      by (cases rs) auto
    with rs assms(1) have "plains runs" using plain_get by fastforce
    with r(2) show ?thesis using forEach_run_step_plain[of runs "[]"] by simp
  next
    case False
    with pt1 show ?thesis by simp
  qed
  with assms(2) rs pt1 show ?thesis
    by (auto simp: paragraphText_def Let_def plains_append split: sum.splits if_splits)
qed

lemma paragraph_step_frame:
  "paragraph_step p acc = (case paragraph_step p [] of Inl e \<Rightarrow> Inl e | Inr ys \<Rightarrow> Inr (acc @ ys))"
  by (simp add: paragraph_step_def split: sum.splits)

lemma paragraph_step_Inr:
  assumes "paragraph_step p acc = Inr acc'"
  shows "\<exists>s. acc' = acc @ [s] \<and> paragraph_string p s"
proof -
  from assms obtain toks where t: "paragraphText p = Inr toks"
    by (auto simp: paragraph_step_def split: sum.splits)
  then have "toks \<noteq> []" by (rule paragraphText_nonempty)
  with t assms show ?thesis
    by (auto simp: paragraph_step_def paragraph_string_def split: sum.splits)
qed

lemma paragraph_step_total:
  assumes "element p" "plain p"
  shows "\<exists>ys. paragraph_step p [] = Inr ys"
proof -
  obtain toks where t: "paragraphText p = Inr toks" "toks \<noteq> []"
    using paragraphText_element[OF assms(1)] by blast
  then have "plains toks" using assms(2) paragraphText_plain by blast
  then obtain s where "js_join [] toks = Inr s" using plains_js_join by blast
  with t show ?thesis by (simp add: paragraph_step_def)
qed

lemma forEach_paragraph_step_Inr:
  assumes "forEach paragraph_step ps [] = Inr strs"
  shows "list_all2 paragraph_string ps strs"
proof -
  have "list_all2 paragraph_string (concat (map (\<lambda>p. [p]) ps)) strs"
  proof (rule forEach_Inr[where f = paragraph_step, OF paragraph_step_frame assms])
    fix p ys assume "paragraph_step p [] = Inr ys"
    then show "list_all2 paragraph_string [p] ys"
      using paragraph_step_Inr[of p "[]" ys] by auto
  qed
  then show ?thesis by simp
qed

lemma forEach_paragraph_step_total:
  assumes "elements ps" "plains ps"
  shows "\<exists>strs. forEach paragraph_step ps [] = Inr strs"
proof (rule forEach_total[where f = paragraph_step, OF paragraph_step_frame])
  fix p assume "p \<in> set ps"
  with assms have "element p" "plain p" by (simp_all add: elements_iff plains_iff)
  then show "\<exists>ys. paragraph_step p [] = Inr ys" by (rule paragraph_step_total)
qed

subsection \<open>Text bodies\<close>

lemma textBody_step_frame:
  "textBody_step tb acc = (case textBody_step tb [] of Inl e \<Rightarrow> Inl e | Inr ys \<Rightarrow> Inr (acc @ ys))"
  by (simp add: textBody_step_def split: sum.splits)

lemma textBody_step_Inr:
  assumes "get textBody ''a:p'' = Inr (Arr ps)" "ps \<noteq> []"
    and r: "textBody_step textBody texts = Inr r"
  shows "\<exists>strs. length strs = length ps \<and> list_all2 paragraph_string ps strs
           \<and> r = texts @ [join newline strs]"
proof -
  from r assms(1) obtain strs where f: "forEach paragraph_step ps [] = Inr strs"
    by (auto simp: textBody_step_def split: sum.splits)
  from forEach_paragraph_step_Inr[OF f] have l: "list_all2 paragraph_string ps strs" .
  then have len: "length strs = length ps" by (simp add: list_all2_lengthD)
  with assms(2) have "strs \<noteq> []" by auto
  with r f assms(1) have "r = texts @ [join newline strs]"
    by (simp add: textBody_step_def)
  with l len show ?thesis by blast
qed

lemma textBody_step_total:
  assumes "get textBody ''a:p'' = Inr (Arr ps)" "ps \<noteq> []" "elements ps" "plains ps"
  shows "\<exists>strs. textBody_step textBody texts = Inr (texts @ [join newline strs])"
proof -
  obtain strs where f: "forEach paragraph_step ps [] = Inr strs"
    using forEach_paragraph_step_total[OF assms(3,4)] by blast
  from forEach_paragraph_step_Inr[OF f] have "length strs = length ps"
    by (simp add: list_all2_lengthD)
  with assms(2) have "strs \<noteq> []" by auto
  with f assms(1) show ?thesis by (auto simp: textBody_step_def)
qed

text \<open>
  Claim C10, as the code has it. No paragraph collects zero tokens, so whenever the
  callback on a paragraph returns it has pushed one string, the join of the tokens: the
  test before the push never fails. For a text body with a non-empty paragraph list,
  whenever the callback on the text body returns it has pushed one block, the join with
  newlines of one string per paragraph in their order. It returns when the paragraphs are
  nodes of the XML parser without a key \<^verbatim>\<open>toString\<close>.
\<close>

theorem every_paragraph_contributes:
  assumes "get textBody ''a:p'' = Inr (Arr ps)" and "ps \<noteq> []"
  shows "(\<forall>p toks. paragraphText p = Inr toks \<longrightarrow> toks \<noteq> [])
       \<and> (\<forall>p r. paragraph_step p paragraphTexts = Inr r \<longrightarrow>
             (\<exists>s. r = paragraphTexts @ [s] \<and> paragraph_string p s))
       \<and> (\<forall>r. textBody_step textBody texts = Inr r \<longrightarrow>
             (\<exists>strs. length strs = length ps \<and> list_all2 paragraph_string ps strs
                \<and> r = texts @ [join newline strs]))
       \<and> (elements ps \<and> plains ps \<longrightarrow>
             (\<exists>strs. textBody_step textBody texts = Inr (texts @ [join newline strs])))"
proof (intro conjI allI impI)
  show "toks \<noteq> []" if "paragraphText p = Inr toks" for p toks
    using that by (rule paragraphText_nonempty)
  show "\<exists>s. r = paragraphTexts @ [s] \<and> paragraph_string p s"
    if "paragraph_step p paragraphTexts = Inr r" for p r
    using that by (rule paragraph_step_Inr)
  show "\<exists>strs. length strs = length ps \<and> list_all2 paragraph_string ps strs
                \<and> r = texts @ [join newline strs]"
    if "textBody_step textBody texts = Inr r" for r
    using assms that by (rule textBody_step_Inr)
  show "\<exists>strs. textBody_step textBody texts = Inr (texts @ [join newline strs])"
    if "elements ps \<and> plains ps"
    using textBody_step_total[OF assms] that by blast
qed

theorem every_paragraph_contributes_witness:
  "elements [Str [], Obj [(''a:r'', Arr [Obj [(''a:t'', Arr [Str ''x''])]])]]
   \<and> plains [Str [], Obj [(''a:r'', Arr [Obj [(''a:t'', Arr [Str ''x''])]])]]
   \<and> textBody_step
         (Obj [(''a:p'', Arr [Str [], Obj [(''a:r'', Arr [Obj [(''a:t'', Arr [Str ''x''])]])]])]) []
       = Inr [newline @ newline @ ''x'']"
  using every_paragraph_contributes[of
      "Obj [(''a:p'', Arr [Str [], Obj [(''a:r'', Arr [Obj [(''a:t'', Arr [Str ''x''])]])]])]"
      "[Str [], Obj [(''a:r'', Arr [Obj [(''a:t'', Arr [Str ''x''])]])]]" "[]" "[]"]
  by (simp add: textBody_step_def paragraph_step_def paragraphText_def run_step_def js_join_def)

text \<open>
  A text body with one paragraph node whose run text is an element with a child named
  \<^verbatim>\<open>toString\<close>: the paragraph collects one token, the join of the tokens raises, and the
  text body pushes no block.
\<close>

theorem text_body_with_toString_key_raises:
  "elements [example_toString_paragraph]
   \<and> paragraphText example_toString_paragraph = Inr [Obj [(''toString'', Arr [Str []])]]
   \<and> textBody_step (Obj [(''a:p'', Arr [example_toString_paragraph])]) []
       = Inl (TypeError NotPrimitive)"
  by (simp add: example_toString_paragraph_def textBody_step_def paragraph_step_def
      paragraphText_def run_step_def js_join_def)

section \<open>Shapes and text blocks\<close>

lemma textBody_element_Inr:
  assumes "element textBody" "textBody_step textBody [] = Inr zs"
  shows "list_all2 text_block (filter has_paragraphs [textBody]) zs"
proof -
  consider "get textBody ''a:p'' = Inr Undefined"
    | ps where "get textBody ''a:p'' = Inr (Arr ps)" "ps \<noteq> []"
    using element_get_tag[OF assms(1), of "''a:p''"] by auto
  then show ?thesis
  proof cases
    case 1
    with assms(2) show ?thesis by (simp add: textBody_step_def has_paragraphs_def)
  next
    case 2
    from textBody_step_Inr[OF 2 assms(2)] obtain strs where "zs = [join newline strs]"
      by auto
    with assms(2) 2(1) show ?thesis by (simp add: has_paragraphs_def text_block_def)
  qed
qed

lemma textBody_element_total:
  assumes "element textBody" "plain textBody"
  shows "\<exists>zs. textBody_step textBody [] = Inr zs"
proof -
  consider "get textBody ''a:p'' = Inr Undefined"
    | ps where "get textBody ''a:p'' = Inr (Arr ps)" "ps \<noteq> []" "elements ps"
    using element_get_tag[OF assms(1), of "''a:p''"] by auto
  then show ?thesis
  proof cases
    case 1
    then show ?thesis by (simp add: textBody_step_def)
  next
    case 2
    from 2(1) assms(2) have "plains ps" using plain_get by fastforce
    from textBody_step_total[OF 2 this] show ?thesis by blast
  qed
qed

lemma concat_map_filter_single: "concat (map (\<lambda>x. filter P [x]) xs) = filter P xs"
  by (induction xs) auto

lemma shape_step_frame:
  "shape_step shape acc = (case shape_step shape [] of Inl e \<Rightarrow> Inl e | Inr ys \<Rightarrow> Inr (acc @ ys))"
proof -
  have "forEach_val c textBody_step v acc
      = (case forEach_val c textBody_step v [] of Inl e \<Rightarrow> Inl e | Inr ys \<Rightarrow> Inr (acc @ ys))" for c v
    using forEach_frame[where f = textBody_step and acc = acc, OF textBody_step_frame]
    by (cases v) simp_all
  then show ?thesis by (simp add: shape_step_def split: sum.splits)
qed

lemma shape_element_Inr:
  assumes "element shape" "shape_step shape [] = Inr ys"
  shows "list_all2 text_block (filter has_paragraphs (textBodies shape)) ys"
proof -
  consider "get shape ''p:txBody'' = Inr Undefined"
    | tbs where "get shape ''p:txBody'' = Inr (Arr tbs)" "tbs \<noteq> []" "elements tbs"
    using element_get_tag[OF assms(1), of "''p:txBody''"] by auto
  then show ?thesis
  proof cases
    case 1
    with assms(2) show ?thesis by (simp add: shape_step_def textBodies_def)
  next
    case 2
    with assms(2) have f: "forEach textBody_step tbs [] = Inr ys"
      by (simp add: shape_step_def)
    have "list_all2 text_block (concat (map (\<lambda>tb. filter has_paragraphs [tb]) tbs)) ys"
    proof (rule forEach_Inr[where f = textBody_step, OF textBody_step_frame f])
      fix tb zs assume "tb \<in> set tbs" "textBody_step tb [] = Inr zs"
      with 2(3) show "list_all2 text_block (filter has_paragraphs [tb]) zs"
        using textBody_element_Inr by (simp add: elements_iff)
    qed
    then have "list_all2 text_block (filter has_paragraphs tbs) ys"
      unfolding concat_map_filter_single .
    with 2(1) show ?thesis
      by (simp add: textBodies_def)
  qed
qed

lemma shape_element_total:
  assumes "element shape" "plain shape"
  shows "\<exists>ys. shape_step shape [] = Inr ys"
proof -
  consider "get shape ''p:txBody'' = Inr Undefined"
    | tbs where "get shape ''p:txBody'' = Inr (Arr tbs)" "tbs \<noteq> []" "elements tbs"
    using element_get_tag[OF assms(1), of "''p:txBody''"] by auto
  then show ?thesis
  proof cases
    case 1
    then show ?thesis by (simp add: shape_step_def)
  next
    case 2
    from 2(1) assms(2) have p: "plains tbs" using plain_get by fastforce
    have "\<exists>r. forEach textBody_step tbs [] = Inr r"
    proof (rule forEach_total[where f = textBody_step, OF textBody_step_frame])
      fix tb assume "tb \<in> set tbs"
      with 2(3) p show "\<exists>zs. textBody_step tb [] = Inr zs"
        using textBody_element_total by (simp add: elements_iff plains_iff)
    qed
    with 2(1) show ?thesis by (simp add: shape_step_def)
  qed
qed

lemma shape_without_textBody:
  assumes "element shape" "textBodies shape = []"
  shows "shape_step shape acc = Inr acc"
proof -
  have "get shape ''p:txBody'' = Inr Undefined"
    using element_get_tag[OF assms(1), of "''p:txBody''"] assms(2)
    by (auto simp: textBodies_def)
  then show ?thesis by (simp add: shape_step_def)
qed

lemma forEach_shape_step_Inr:
  assumes "elements shapes" "forEach shape_step shapes [] = Inr texts"
  shows "list_all2 text_block (filter has_paragraphs (concat (map textBodies shapes))) texts"
proof -
  have "list_all2 text_block (concat (map (\<lambda>s. filter has_paragraphs (textBodies s)) shapes)) texts"
  proof (rule forEach_Inr[where f = shape_step, OF shape_step_frame assms(2)])
    fix s ys assume "s \<in> set shapes" "shape_step s [] = Inr ys"
    with assms(1) show "list_all2 text_block (filter has_paragraphs (textBodies s)) ys"
      using shape_element_Inr by (simp add: elements_iff)
  qed
  then show ?thesis by (simp add: filter_concat comp_def)
qed

lemma forEach_shape_step_total:
  assumes "elements shapes" "plains shapes"
  shows "\<exists>texts. forEach shape_step shapes [] = Inr texts"
proof (rule forEach_total[where f = shape_step, OF shape_step_frame])
  fix s assume "s \<in> set shapes"
  with assms show "\<exists>ys. shape_step s [] = Inr ys"
    using shape_element_total by (simp add: elements_iff plains_iff)
qed

lemma length_concat_le:
  "\<forall>x\<in>set xs. length (g x) \<le> 1 \<Longrightarrow> length (concat (map g xs)) \<le> length xs"
  by (induction xs) auto

lemma length_concat_less:
  "\<forall>x\<in>set xs. length (g x) \<le> 1 \<Longrightarrow> \<exists>x\<in>set xs. g x = [] \<Longrightarrow>
   length (concat (map g xs)) < length xs"
proof (induction xs)
  case Nil
  then show ?case by simp
next
  case (Cons x xs)
  show ?case
  proof (cases "g x = []")
    case True
    with Cons.prems(1) length_concat_le[of xs g] show ?thesis by simp
  next
    case False
    with Cons have "length (concat (map g xs)) < length xs" by auto
    with Cons.prems(1) show ?thesis by simp
  qed
qed

lemma document_root:
  assumes "document d"
  shows "get d ''p:sld'' = Inr Undefined \<or> (\<exists>e. get d ''p:sld'' = Inr e \<and> element e)"
  using assms by (cases d rule: document.cases) auto

lemma document_spTree:
  assumes "document d"
  shows "spTree_of d = Inr None \<or> (\<exists>spTree. spTree_of d = Inr (Some spTree) \<and> element spTree)"
proof -
  consider "get d ''p:sld'' = Inr Undefined" | sld where "get d ''p:sld'' = Inr sld" "element sld"
    using document_root[OF assms] by auto
  then show ?thesis
  proof cases
    case 1
    then show ?thesis by (simp add: spTree_of_def)
  next
    case 2
    consider "get sld ''p:cSld'' = Inr Undefined"
      | cs where "get sld ''p:cSld'' = Inr (Arr cs)" "cs \<noteq> []" "elements cs"
      using element_get_tag[OF 2(2), of "''p:cSld''"] by auto
    then show ?thesis
    proof cases
      case 1
      with 2(1) show ?thesis by (simp add: spTree_of_def)
    next
      case c: 2
      then obtain c0 where c0: "index0 (Arr cs) = Inr c0" "element c0"
        using index0_elements by blast
      consider "get c0 ''p:spTree'' = Inr Undefined"
        | ts where "get c0 ''p:spTree'' = Inr (Arr ts)" "ts \<noteq> []" "elements ts"
        using element_get_tag[OF c0(2), of "''p:spTree''"] by auto
      then show ?thesis
      proof cases
        case 1
        with 2(1) c(1) c0(1) show ?thesis by (simp add: spTree_of_def)
      next
        case t: 2
        then obtain sp where sp: "index0 (Arr ts) = Inr sp" "element sp"
          using index0_elements by blast
        with 2(1) c(1) c0(1) t(1) show ?thesis by (simp add: spTree_of_def)
      qed
    qed
  qed
qed

lemma plain_spTree:
  assumes "plain d" "spTree_of d = Inr (Some spTree)"
  shows "plain spTree"
proof -
  from assms(2) obtain sld c c0 t where
    "get d ''p:sld'' = Inr sld" "get sld ''p:cSld'' = Inr c" "index0 c = Inr c0"
    "get c0 ''p:spTree'' = Inr t" "index0 t = Inr spTree"
    by (auto simp: spTree_of_def split: sum.splits if_splits)
  with assms(1) show ?thesis
    by (meson plain_get plain_index0)
qed

lemma extract_shapes:
  assumes "spTree_of d = Inr (Some spTree)" "element spTree"
  shows "(get spTree ''p:sp'' = Inr Undefined \<and> extractTextFromSlide d = Inr [])
    \<or> (\<exists>shapes. get spTree ''p:sp'' = Inr (Arr shapes) \<and> elements shapes
         \<and> extractTextFromSlide d = forEach shape_step shapes [])"
  using element_get_tag[OF assms(2), of "''p:sp''"] assms(1)
  by (auto simp: extractTextFromSlide_def)

lemma extract_total:
  assumes "document d" "plain d"
  shows "\<exists>texts. extractTextFromSlide d = Inr texts"
proof -
  consider "spTree_of d = Inr None"
    | spTree where "spTree_of d = Inr (Some spTree)" "element spTree"
    using document_spTree[OF assms(1)] by auto
  then show ?thesis
  proof cases
    case 1
    then show ?thesis by (simp add: extractTextFromSlide_def)
  next
    case 2
    from 2(1) assms(2) have p: "plain spTree" by (rule plain_spTree[rotated])
    consider "extractTextFromSlide d = Inr []"
      | shapes where "get spTree ''p:sp'' = Inr (Arr shapes)" "elements shapes"
        "extractTextFromSlide d = forEach shape_step shapes []"
      using extract_shapes[OF 2] by auto
    then show ?thesis
    proof cases
      case 1
      then show ?thesis by simp
    next
      case s: 2
      from s(1) p have "plains shapes" using plain_get by fastforce
      with s(2,3) show ?thesis using forEach_shape_step_total by simp
    qed
  qed
qed

text \<open>
  Claim C3, as the code has it. On a document of the XML parser whose shape tree has the
  shape list \<open>shapes\<close>, whenever the extractor returns, it returns one block for each text
  body that has a paragraph list, in the order of the shapes and of the text bodies within
  a shape; when no shape has more than one text body and some shape has none, the result
  is shorter than the shape list. A shape without a text body leaves the result as it is.
  The extractor returns when no object of the tree has a key \<^verbatim>\<open>toString\<close>.
\<close>

theorem one_block_per_text_body_with_paragraphs:
  assumes "document slideData"
    and "spTree_of slideData = Inr (Some spTree)"
    and "get spTree ''p:sp'' = Inr (Arr shapes)"
  shows "(\<forall>texts. extractTextFromSlide slideData = Inr texts \<longrightarrow>
            list_all2 text_block (filter has_paragraphs (concat (map textBodies shapes))) texts
            \<and> ((\<forall>shape\<in>set shapes. length (textBodies shape) \<le> 1)
                 \<and> (\<exists>shape\<in>set shapes. textBodies shape = [])
               \<longrightarrow> length texts < length shapes))
       \<and> (\<forall>shape\<in>set shapes. textBodies shape = [] \<longrightarrow> (\<forall>acc. shape_step shape acc = Inr acc))
       \<and> (plain slideData \<longrightarrow> (\<exists>texts. extractTextFromSlide slideData = Inr texts))"
proof (intro conjI allI impI)
  from document_spTree[OF assms(1)] assms(2) have sp: "element spTree" by auto
  from extract_shapes[OF assms(2) sp] assms(3)
  have shapes: "elements shapes" "extractTextFromSlide slideData = forEach shape_step shapes []"
    by auto
  show "\<forall>shape\<in>set shapes. textBodies shape = [] \<longrightarrow> (\<forall>acc. shape_step shape acc = Inr acc)"
    using shapes(1) shape_without_textBody by (simp add: elements_iff)
  show "\<exists>texts. extractTextFromSlide slideData = Inr texts" if "plain slideData"
    using extract_total[OF assms(1) that] .
  fix texts assume "extractTextFromSlide slideData = Inr texts"
  with shapes(2) have f: "forEach shape_step shapes [] = Inr texts" by simp
  from forEach_shape_step_Inr[OF shapes(1) f]
  show l: "list_all2 text_block (filter has_paragraphs (concat (map textBodies shapes))) texts" .
  assume c: "(\<forall>shape\<in>set shapes. length (textBodies shape) \<le> 1)
                 \<and> (\<exists>shape\<in>set shapes. textBodies shape = [])"
  have "length texts \<le> length (concat (map textBodies shapes))"
    using list_all2_lengthD[OF l] by (metis length_filter_le)
  moreover have "length (concat (map textBodies shapes)) < length shapes"
    using c length_concat_less[of shapes textBodies] by blast
  ultimately show "length texts < length shapes" by simp
qed

theorem one_block_per_text_body_with_paragraphs_witness:
  "document example_slide \<and> plain example_slide
   \<and> spTree_of example_slide = Inr (Some (Obj [(''p:sp'', Arr example_shapes)]))
   \<and> extractTextFromSlide example_slide = Inr [''Title'']
   \<and> filter has_paragraphs (concat (map textBodies example_shapes))
       = [Obj [(''a:p'', Arr [Obj [(''a:r'', Arr [Obj [(''a:t'', Arr [Str ''Title''])]])]])]]"
proof -
  have d: "document example_slide" and p: "plain example_slide"
    by (simp_all add: example_slide_def example_shapes_def)
  have s: "spTree_of example_slide = Inr (Some (Obj [(''p:sp'', Arr example_shapes)]))"
    by (simp add: example_slide_def spTree_of_def)
  have g: "get (Obj [(''p:sp'', Arr example_shapes)]) ''p:sp'' = Inr (Arr example_shapes)"
    by simp
  have f: "filter has_paragraphs (concat (map textBodies example_shapes))
       = [Obj [(''a:p'', Arr [Obj [(''a:r'', Arr [Obj [(''a:t'', Arr [Str ''Title''])]])]])]]"
    by (simp add: example_shapes_def textBodies_def has_paragraphs_def)
  have b: "text_block (Obj [(''a:p'', Arr [Obj [(''a:r'', Arr [Obj [(''a:t'', Arr [Str ''Title''])]])]])]) t
      \<longleftrightarrow> t = ''Title''" for t
    by (auto simp: text_block_def textBody_step_def paragraph_step_def paragraphText_def
        run_step_def js_join_def)
  from one_block_per_text_body_with_paragraphs[OF d s g] p
  have "extractTextFromSlide example_slide = Inr [''Title'']"
    unfolding f by (auto simp: list_all2_Cons1 b)
  with d p s f show ?thesis by simp
qed

text \<open>
  A shape whose text body has no paragraph list: the shape contains a text body, and the
  extractor returns no block for it.
\<close>

theorem text_body_without_paragraphs_gives_no_block:
  "get (Obj [(''p:txBody'', Arr [Obj [(''a:bodyPr'', Arr [Str []])]])]) ''p:txBody''
     = Inr (Arr [Obj [(''a:bodyPr'', Arr [Str []])]])
   \<and> extractTextFromSlide
       (Obj [(''p:sld'',
              Obj [(''p:cSld'',
                    Arr [Obj [(''p:spTree'',
                               Arr [Obj [(''p:sp'',
                                          Arr [Obj [(''p:txBody'',
                                                     Arr [Obj [(''a:bodyPr'', Arr [Str []])]])]])]])]])])])
     = Inr []"
  by (simp add: extractTextFromSlide_def spTree_of_def shape_step_def textBody_step_def)

text \<open>
  Claim C9, as the code has it. On every document of the XML parser in which no object has
  a key \<^verbatim>\<open>toString\<close> the extractor returns a list and raises nothing. It returns the empty
  list when the root element is not the slide element, when the slide element has no
  content container, when the first container has no shape tree and when the shape tree
  has no shape list. A run without a text child leaves the tokens of its paragraph as they
  are.
\<close>

theorem extractTextFromSlide_total_on_documents:
  assumes "document slideData" and "plain slideData"
  shows "(\<exists>texts. extractTextFromSlide slideData = Inr texts)
       \<and> (lacks slideData ''p:sld'' \<longrightarrow> extractTextFromSlide slideData = Inr [])
       \<and> (\<forall>sld. get slideData ''p:sld'' = Inr sld \<and> lacks sld ''p:cSld''
             \<longrightarrow> extractTextFromSlide slideData = Inr [])
       \<and> (\<forall>sld c c0. get slideData ''p:sld'' = Inr sld \<and> get sld ''p:cSld'' = Inr c
               \<and> index0 c = Inr c0 \<and> lacks c0 ''p:spTree''
             \<longrightarrow> extractTextFromSlide slideData = Inr [])
       \<and> (\<forall>spTree. spTree_of slideData = Inr (Some spTree) \<and> lacks spTree ''p:sp''
             \<longrightarrow> extractTextFromSlide slideData = Inr [])
       \<and> (\<forall>run acc. lacks run ''a:t'' \<longrightarrow> run_step run acc = Inr acc)"
proof (intro conjI allI impI)
  show "\<exists>texts. extractTextFromSlide slideData = Inr texts"
    using assms by (rule extract_total)
  show "extractTextFromSlide slideData = Inr []" if "lacks slideData ''p:sld''"
    using lacksD[OF that] by (auto simp: extractTextFromSlide_def spTree_of_def)
  show "extractTextFromSlide slideData = Inr []"
    if "get slideData ''p:sld'' = Inr sld \<and> lacks sld ''p:cSld''" for sld
    using that lacksD[of sld "''p:cSld''"]
    by (auto simp: extractTextFromSlide_def spTree_of_def)
  show "extractTextFromSlide slideData = Inr []"
    if "get slideData ''p:sld'' = Inr sld \<and> get sld ''p:cSld'' = Inr c
               \<and> index0 c = Inr c0 \<and> lacks c0 ''p:spTree''" for sld c c0
    using that lacksD[of c0 "''p:spTree''"]
    by (auto simp: extractTextFromSlide_def spTree_of_def)
  show "extractTextFromSlide slideData = Inr []"
    if "spTree_of slideData = Inr (Some spTree) \<and> lacks spTree ''p:sp''" for spTree
    using that lacksD[of spTree "''p:sp''"]
    by (auto simp: extractTextFromSlide_def)
  show "run_step run acc = Inr acc" if "lacks run ''a:t''" for run acc
    using lacksD[OF that] by (auto simp: run_step_def)
qed

theorem extractTextFromSlide_total_on_documents_witness:
  "document (Obj [(''p:sld'', Obj [(''p:cSld'', Arr [Obj [(''p:spTree'', Arr [Obj [(''p:sp'',
       Arr [Obj [(''p:txBody'', Arr [Obj [(''a:p'',
         Arr [Obj [(''a:r'', Arr [Obj [(''a:rPr'', Arr [Str []])], Obj [(''a:t'', Arr [Str ''x''])]])]])]])]])]])]])])])
   \<and> plain (Obj [(''p:sld'', Obj [(''p:cSld'', Arr [Obj [(''p:spTree'', Arr [Obj [(''p:sp'',
       Arr [Obj [(''p:txBody'', Arr [Obj [(''a:p'',
         Arr [Obj [(''a:r'', Arr [Obj [(''a:rPr'', Arr [Str []])], Obj [(''a:t'', Arr [Str ''x''])]])]])]])]])]])]])])])
   \<and> extractTextFromSlide (Obj [(''p:sld'', Obj [(''p:cSld'', Arr [Obj [(''p:spTree'', Arr [Obj [(''p:sp'',
       Arr [Obj [(''p:txBody'', Arr [Obj [(''a:p'',
         Arr [Obj [(''a:r'', Arr [Obj [(''a:rPr'', Arr [Str []])], Obj [(''a:t'', Arr [Str ''x''])]])]])]])]])]])]])])])
     = Inr [''x'']"
  using extractTextFromSlide_total_on_documents[of
     "Obj [(''p:sld'', Obj [(''p:cSld'', Arr [Obj [(''p:spTree'', Arr [Obj [(''p:sp'',
       Arr [Obj [(''p:txBody'', Arr [Obj [(''a:p'',
         Arr [Obj [(''a:r'', Arr [Obj [(''a:rPr'', Arr [Str []])], Obj [(''a:t'', Arr [Str ''x''])]])]])]])]])]])]])])]"]
  by (simp add: extractTextFromSlide_def spTree_of_def shape_step_def textBody_step_def
      paragraph_step_def paragraphText_def run_step_def js_join_def)

text \<open>
  A document of the XML parser on which the extractor raises: the text element of the run
  has a child element named \<^verbatim>\<open>toString\<close>, so the token of the run is an object whose
  conversion to a string fails in the join of the paragraph.
\<close>

theorem extractTextFromSlide_raises_on_toString_element:
  "document example_toString_slide
   \<and> extractTextFromSlide example_toString_slide = Inl (TypeError NotPrimitive)"
  by (simp add: example_toString_slide_def example_toString_paragraph_def
      extractTextFromSlide_def spTree_of_def shape_step_def textBody_step_def
      paragraph_step_def paragraphText_def run_step_def js_join_def)

section \<open>Slide relations\<close>

lemma endsWith_suffix: "endsWith s t \<longleftrightarrow> suffix t s"
proof
  assume "endsWith s t"
  then have "s = take (length s - length t) s @ t"
    by (metis append_take_drop_id endsWith_def)
  then show "suffix t s" by (rule suffixI)
next
  assume "suffix t s"
  then obtain zs where "s = zs @ t" by (auto elim: suffixE)
  then show "endsWith s t" by (simp add: endsWith_def)
qed

lemma other_suffixes_not_slide:
  "\<not> suffix ''/slide'' (t @ ''/slideLayout'')" "\<not> suffix ''/slide'' (t @ ''/slideMaster'')"
  by (simp_all add: suffix_to_prefix)

lemma filter_js_Inr:
  "filter_js p xs = Inr ys \<Longrightarrow> ys = filter (\<lambda>x. p x = Inr True) xs"
  by (induction xs arbitrary: ys) (auto split: sum.splits if_splits)

lemma map_js_Inr: "map_js f xs = Inr ys \<Longrightarrow> map Inr ys = map f xs"
  by (induction xs arbitrary: ys) (auto split: sum.splits)

lemma filter_js_total:
  "\<forall>x\<in>set xs. \<exists>b. p x = Inr b \<Longrightarrow> \<exists>ys. filter_js p xs = Inr ys"
  by (induction xs) auto

lemma map_js_total:
  "\<forall>x\<in>set xs. \<exists>y. f x = Inr y \<Longrightarrow> \<exists>ys. map_js f xs = Inr ys"
  by (induction xs) auto

lemma getSlideRelations_Inr:
  assumes "getSlideRelations d = Inr relations"
  shows "\<exists>root records. get d ''Relationships'' = Inr root
       \<and> get root ''Relationship'' = Inr (Arr records)
       \<and> map Inr relations = map to_relation (filter (\<lambda>rel. is_slide rel = Inr True) records)"
  using assms
  by (auto simp: getSlideRelations_def split: sum.splits jsval.splits
      dest!: filter_js_Inr map_js_Inr)

lemma record_with_Type:
  assumes "get rel ''$'' = Inr a" "get a ''Type'' = Inr (Str t)"
  shows "is_slide rel = Inr (suffix ''/slide'' t)" "\<exists>r. to_relation rel = Inr r"
proof -
  show "is_slide rel = Inr (suffix ''/slide'' t)"
    using assms by (simp add: is_slide_def endsWith_suffix)
  from assms(2) obtain i tg where "get a ''Id'' = Inr i" "get a ''Target'' = Inr tg"
    by (cases a) auto
  with assms(1) show "\<exists>r. to_relation rel = Inr r"
    by (simp add: to_relation_def)
qed

text \<open>
  Claim C2. On a relationships tree whose records each carry a string \<^verbatim>\<open>Type\<close>
  attribute, the function returns the relations of the records that pass the filter, in
  the order of the records; a record passes exactly when its \<^verbatim>\<open>Type\<close> ends with
  \<^verbatim>\<open>/slide\<close>, character for character, and a record whose \<^verbatim>\<open>Type\<close> ends with
  \<^verbatim>\<open>/slideLayout\<close> or \<^verbatim>\<open>/slideMaster\<close> does not pass.
\<close>

theorem getSlideRelations_suffix_filter:
  assumes "get relationshipsData ''Relationships'' = Inr root"
    and "get root ''Relationship'' = Inr (Arr records)"
    and "\<forall>rel\<in>set records. \<exists>a t. get rel ''$'' = Inr a \<and> get a ''Type'' = Inr (Str t)"
  shows "(\<exists>relations. getSlideRelations relationshipsData = Inr relations
            \<and> map Inr relations = map to_relation (filter (\<lambda>rel. is_slide rel = Inr True) records))
       \<and> (\<forall>rel\<in>set records. \<forall>a t. get rel ''$'' = Inr a \<and> get a ''Type'' = Inr (Str t) \<longrightarrow>
            (is_slide rel = Inr True \<longleftrightarrow> suffix ''/slide'' t)
            \<and> (suffix ''/slideLayout'' t \<or> suffix ''/slideMaster'' t \<longrightarrow> is_slide rel = Inr False))"
proof (intro conjI ballI allI impI)
  have "\<forall>rel\<in>set records. \<exists>b. is_slide rel = Inr b"
    using assms(3) record_with_Type(1) by blast
  then obtain kept where kept: "filter_js is_slide records = Inr kept"
    using filter_js_total by blast
  then have k: "kept = filter (\<lambda>rel. is_slide rel = Inr True) records"
    by (rule filter_js_Inr)
  have "\<forall>rel\<in>set kept. \<exists>r. to_relation rel = Inr r"
    using assms(3) record_with_Type(2) unfolding k by fastforce
  then obtain relations where r: "map_js to_relation kept = Inr relations"
    using map_js_total by blast
  with kept assms(1,2) have "getSlideRelations relationshipsData = Inr relations"
    by (simp add: getSlideRelations_def)
  moreover from r have "map Inr relations = map to_relation kept"
    by (rule map_js_Inr)
  ultimately show "\<exists>relations. getSlideRelations relationshipsData = Inr relations
            \<and> map Inr relations = map to_relation (filter (\<lambda>rel. is_slide rel = Inr True) records)"
    unfolding k by blast
next
  fix rel a t
  assume "get rel ''$'' = Inr a \<and> get a ''Type'' = Inr (Str t)"
  then have *: "is_slide rel = Inr (suffix ''/slide'' t)"
    using record_with_Type(1) by blast
  then show "is_slide rel = Inr True \<longleftrightarrow> suffix ''/slide'' t" by simp
  assume "suffix ''/slideLayout'' t \<or> suffix ''/slideMaster'' t"
  then have "\<not> suffix ''/slide'' t"
    using other_suffixes_not_slide by (auto elim!: suffixE)
  with * show "is_slide rel = Inr False" by simp
qed

theorem getSlideRelations_suffix_filter_witness:
  "getSlideRelations example_relationships
     = Inr [\<lparr>relation_id = Str ''rId2'', target = Str ''slides/slide1.xml''\<rparr>,
            \<lparr>relation_id = Str ''rId3'', target = Str ''slides/slide2.xml''\<rparr>]"
proof -
  have g: "get example_relationships ''Relationships'' = Inr (Obj [(''Relationship'', Arr example_records)])"
    "get (Obj [(''Relationship'', Arr example_records)]) ''Relationship'' = Inr (Arr example_records)"
    by (simp_all add: example_relationships_def)
  have t: "\<forall>rel\<in>set example_records. \<exists>a t. get rel ''$'' = Inr a \<and> get a ''Type'' = Inr (Str t)"
    by (simp add: example_records_def example_record_def)
  have f: "filter (\<lambda>rel. is_slide rel = Inr True) example_records
      = [example_record ''rId2'' ''relationships/slide'' ''slides/slide1.xml'',
         example_record ''rId3'' ''relationships/slide'' ''slides/slide2.xml'']"
    by (simp add: example_records_def example_record_def is_slide_def endsWith_def)
  from getSlideRelations_suffix_filter[OF g t] obtain relations where
    r: "getSlideRelations example_relationships = Inr relations"
    "map Inr relations = map to_relation (filter (\<lambda>rel. is_slide rel = Inr True) example_records)"
    by blast
  from r(2) have "map Inr relations
      = [Inr \<lparr>relation_id = Str ''rId2'', target = Str ''slides/slide1.xml''\<rparr>,
         Inr \<lparr>relation_id = Str ''rId3'', target = Str ''slides/slide2.xml''\<rparr> :: js_error + SlideRelation]"
    unfolding f by (simp add: to_relation_def example_record_def)
  then have "relations = [\<lparr>relation_id = Str ''rId2'', target = Str ''slides/slide1.xml''\<rparr>,
            \<lparr>relation_id = Str ''rId3'', target = Str ''slides/slide2.xml''\<rparr>]"
    by (auto simp: map_eq_Cons_conv)
  with r(1) show ?thesis by simp
qed

section \<open>The loader\<close>

text \<open>
  Claim C7. When the archive has no entry at \<^verbatim>\<open>ppt/presentation.xml\<close>, or none at
  \<^verbatim>\<open>ppt/_rels/presentation.xml.rels\<close>, \<open>parse\<close> fails with the wrapped error of the invalid
  structure and returns no presentation.
\<close>

theorem parse_missing_required_entry:
  assumes "(\<forall>f\<in>set files. file_path f \<noteq> ''ppt/presentation.xml'')
         \<or> (\<forall>f\<in>set files. file_path f \<noteq> ''ppt/_rels/presentation.xml.rels'')"
  shows "parse engine parseXmlContent (Inr files)
           = Inl (Error ''Failed to parse PPTX: Invalid PPTX file structure'')"
proof -
  from assms have "find (\<lambda>d. file_path d = ''ppt/presentation.xml'') files = None
      \<or> find (\<lambda>d. file_path d = ''ppt/_rels/presentation.xml.rels'') files = None"
    by (auto simp: find_None_iff)
  then have "parse_try parseXmlContent (Inr files) = Inl (Error ''Invalid PPTX file structure'')"
    by (auto simp: parse_try_def split: option.splits)
  then show ?thesis by (simp add: parse_def)
qed

theorem parse_missing_required_entry_witness:
  "parse (\<lambda>operation. []) example_parser
       (Inr [\<lparr>file_path = ''ppt/presentation.xml'', file_stream = Inr ''P''\<rparr>,
             \<lparr>file_path = ''ppt/slides/slide2.xml'', file_stream = Inr ''S''\<rparr>])
     = Inl (Error ''Failed to parse PPTX: Invalid PPTX file structure'')"
  using parse_missing_required_entry[of
      "[\<lparr>file_path = ''ppt/presentation.xml'', file_stream = Inr ''P''\<rparr>,
        \<lparr>file_path = ''ppt/slides/slide2.xml'', file_stream = Inr ''S''\<rparr>]"
      "\<lambda>operation. []" example_parser]
  by simp

lemma find_js_path:
  "find_js (\<lambda>f. Inr (file_path f = p)) files = Inr (find (\<lambda>f. file_path f = p) files)"
  by (induction files) auto

lemma find_js_Inl:
  "find_js (\<lambda>f. Inl e) files = (if files = [] then Inr None else Inl e)"
  by (cases files) auto

lemma load_slide_Inr:
  assumes "load_slide px files r = Inr v"
  shows "case v of
           None \<Rightarrow> \<not> resolves files r
         | Some s \<Rightarrow> resolves files r \<and> slide_id s = relation_id r \<and> target_path r = Inr (path s)"
proof (cases "target_path r")
  case (Inl e)
  with assms show ?thesis
    by (auto simp: load_slide_def resolves_def find_js_Inl split: if_splits)
next
  case (Inr p)
  show ?thesis
  proof (cases "find (\<lambda>f. file_path f = p) files")
    case None
    with Inr assms show ?thesis
      by (auto simp: load_slide_def resolves_def find_js_path)
  next
    case (Some f)
    then have "file_path f = p"
      by (auto dest: find_Some_iff[THEN iffD1])
    with Some Inr assms show ?thesis
      by (auto simp: load_slide_def resolves_def find_js_path split: sum.splits)
  qed
qed

lemma promise_all_load:
  "promise_all (map (load_slide px files) rels) = Inr loaded \<Longrightarrow>
   map (\<lambda>s. (slide_id s, Inr (path s))) (non_null loaded)
     = map (\<lambda>r. (relation_id r, target_path r)) (filter (resolves files) rels)"
proof (induction rels arbitrary: loaded)
  case Nil
  then show ?case by simp
next
  case (Cons r rs)
  then obtain v vs where v: "load_slide px files r = Inr v"
    "promise_all (map (load_slide px files) rs) = Inr vs" "loaded = v # vs"
    by (auto split: sum.splits)
  from load_slide_Inr[OF v(1)] Cons.IH[OF v(2)] v(3) show ?case
    by (cases v) auto
qed

lemma parse_Inr:
  assumes "parse engine px (Inr files) = Inr result"
  shows "\<exists>relations loaded. getSlideRelations (parsed (relationships result)) = Inr relations
     \<and> promise_all (map (load_slide px files) relations) = Inr loaded
     \<and> slides result = non_null loaded"
  using assms
  by (auto simp: parse_def parse_try_def split: sum.splits option.splits)

text \<open>
  Claim C1. When \<open>parse\<close> returns, its slide list has one slide for each slide relation
  whose target resolves to an entry of the archive, with the identifier of the relation
  and the path of the entry, in the order of the relations; the relations are those of
  the records of the relationships tree that pass the filter, in the order of the records.
  The length of the slide list is the number of relations that resolve.
\<close>

theorem parse_slides_in_relation_order:
  assumes "parse engine parseXmlContent (Inr files) = Inr result"
  shows "\<exists>root records relations.
         get (parsed (relationships result)) ''Relationships'' = Inr root
       \<and> get root ''Relationship'' = Inr (Arr records)
       \<and> getSlideRelations (parsed (relationships result)) = Inr relations
       \<and> map Inr relations = map to_relation (filter (\<lambda>rel. is_slide rel = Inr True) records)
       \<and> map (\<lambda>s. (slide_id s, Inr (path s))) (slides result)
           = map (\<lambda>r. (relation_id r, target_path r)) (filter (resolves files) relations)
       \<and> length (slides result) = length (filter (resolves files) relations)"
proof -
  from parse_Inr[OF assms] obtain relations loaded where
    r: "getSlideRelations (parsed (relationships result)) = Inr relations"
    and l: "promise_all (map (load_slide parseXmlContent files) relations) = Inr loaded"
    and s: "slides result = non_null loaded"
    by blast
  from getSlideRelations_Inr[OF r] obtain root records where
    g: "get (parsed (relationships result)) ''Relationships'' = Inr root"
      "get root ''Relationship'' = Inr (Arr records)"
      "map Inr relations = map to_relation (filter (\<lambda>rel. is_slide rel = Inr True) records)"
    by blast
  have m: "map (\<lambda>s. (slide_id s, Inr (path s))) (slides result)
           = map (\<lambda>r. (relation_id r, target_path r)) (filter (resolves files) relations)"
    using promise_all_load[OF l] s by simp
  have "length (map (\<lambda>s. (slide_id s, Inr (path s) :: js_error + string)) (slides result))
           = length (map (\<lambda>r. (relation_id r, target_path r)) (filter (resolves files) relations))"
    by (simp only: m)
  then have "length (slides result) = length (filter (resolves files) relations)"
    by simp
  with g r m show ?thesis by blast
qed

lemma example_relations:
  "getSlideRelations example_relationships
     = Inr [\<lparr>relation_id = Str ''rId2'', target = Str ''slides/slide1.xml''\<rparr>,
            \<lparr>relation_id = Str ''rId3'', target = Str ''slides/slide2.xml''\<rparr>]"
  by (simp add: getSlideRelations_def example_relationships_def example_records_def
      example_record_def is_slide_def to_relation_def endsWith_def)

lemma example_parse:
  "parse engine example_parser (Inr example_files)
     = Inr \<lparr>presentation =
              \<lparr>path = ''ppt/presentation.xml'', xml = ''P'',
               parsed = Obj [(''p:presentation'', Str [])]\<rparr>,
            relationships =
              \<lparr>path = ''ppt/_rels/presentation.xml.rels'', xml = ''R'',
               parsed = example_relationships\<rparr>,
            slides = [\<lparr>path = ''ppt/slides/slide2.xml'', xml = ''S'', parsed = example_slide,
                       slide_id = Str ''rId3''\<rparr>]\<rparr>"
  by (simp add: parse_def parse_try_def example_files_def example_parser_def getFileContent_def
      example_relations load_slide_def target_path_def)

theorem parse_slides_in_relation_order_witness:
  "\<exists>result. parse (\<lambda>operation. []) example_parser (Inr example_files) = Inr result
     \<and> map (\<lambda>s. (slide_id s, path s)) (slides result) = [(Str ''rId3'', ''ppt/slides/slide2.xml'')]
     \<and> length (slides result) = 1"
  using parse_slides_in_relation_order[OF example_parse[of "\<lambda>operation. []"]]
    example_parse[of "\<lambda>operation. []"]
  by simp

lemma promise_all_total:
  assumes "\<forall>r\<in>set rels. \<exists>p. target_path r = Inr p
             \<and> (\<forall>f. find (\<lambda>f. file_path f = p) files = Some f
                   \<longrightarrow> (\<exists>c t. file_stream f = Inr c \<and> px c = Inr t))"
  shows "\<exists>loaded. promise_all (map (load_slide px files) rels) = Inr loaded"
  using assms
proof (induction rels)
  case Nil
  then show ?case by simp
next
  case (Cons r rs)
  then obtain vs where vs: "promise_all (map (load_slide px files) rs) = Inr vs" by auto
  from Cons.prems obtain p where p: "target_path r = Inr p"
    "\<forall>f. find (\<lambda>f. file_path f = p) files = Some f
                   \<longrightarrow> (\<exists>c t. file_stream f = Inr c \<and> px c = Inr t)"
    by auto
  have "\<exists>v. load_slide px files r = Inr v"
  proof (cases "find (\<lambda>f. file_path f = p) files")
    case None
    with p(1) show ?thesis by (simp add: load_slide_def find_js_path)
  next
    case (Some f)
    with p(2) obtain c t where "file_stream f = Inr c" "px c = Inr t" by blast
    with Some p(1) show ?thesis by (simp add: load_slide_def find_js_path getFileContent_def)
  qed
  with vs show ?case by auto
qed

text \<open>
  Claim C8. A relation whose target resolves to no entry makes its loader return
  \<^verbatim>\<open>null\<close>, not an error. When the two required parts are present, readable and
  parseable, and every slide entry that a relation resolves to is readable and parseable,
  \<open>parse\<close> returns, and the identifiers of its slides are those of the relations that
  resolve, in order. With the two relations \<^verbatim>\<open>rId2\<close> and \<^verbatim>\<open>rId3\<close>, of which only the
  second resolves, the slide list has length 1 and holds the slide \<^verbatim>\<open>rId3\<close>.
\<close>

theorem parse_drops_unresolved_relation:
  assumes "find (\<lambda>d. file_path d = ''ppt/presentation.xml'') files = Some pf"
    and "file_stream pf = Inr pc" and "parseXmlContent pc = Inr pd"
    and "find (\<lambda>d. file_path d = ''ppt/_rels/presentation.xml.rels'') files = Some rf"
    and "file_stream rf = Inr rc" and "parseXmlContent rc = Inr rd"
    and "getSlideRelations rd = Inr relations"
    and "\<forall>r\<in>set relations. \<exists>p. target_path r = Inr p
            \<and> (\<forall>f. find (\<lambda>f. file_path f = p) files = Some f
                  \<longrightarrow> (\<exists>c t. file_stream f = Inr c \<and> parseXmlContent c = Inr t))"
  shows "(\<forall>r\<in>set relations. \<not> resolves files r \<longrightarrow> load_slide parseXmlContent files r = Inr None)
     \<and> (\<exists>result. parse engine parseXmlContent (Inr files) = Inr result
          \<and> map slide_id (slides result) = map relation_id (filter (resolves files) relations)
          \<and> (\<forall>t2 t3. relations = [\<lparr>relation_id = Str ''rId2'', target = t2\<rparr>,
                                   \<lparr>relation_id = Str ''rId3'', target = t3\<rparr>]
                \<and> \<not> resolves files \<lparr>relation_id = Str ''rId2'', target = t2\<rparr>
                \<and> resolves files \<lparr>relation_id = Str ''rId3'', target = t3\<rparr>
              \<longrightarrow> length (slides result) = 1 \<and> map slide_id (slides result) = [Str ''rId3'']))"
proof (intro conjI)
  show "\<forall>r\<in>set relations. \<not> resolves files r \<longrightarrow> load_slide parseXmlContent files r = Inr None"
  proof (intro ballI impI)
    fix r assume r: "r \<in> set relations" "\<not> resolves files r"
    with assms(8) obtain p where "target_path r = Inr p" by blast
    with r(2) show "load_slide parseXmlContent files r = Inr None"
      by (simp add: resolves_def load_slide_def find_js_path)
  qed
next
  obtain loaded where
    loaded: "promise_all (map (load_slide parseXmlContent files) relations) = Inr loaded"
    using promise_all_total[OF assms(8)] by blast
  define result where "result = \<lparr>presentation =
        \<lparr>path = ''ppt/presentation.xml'', xml = pc, parsed = pd\<rparr>,
      relationships = \<lparr>path = ''ppt/_rels/presentation.xml.rels'', xml = rc, parsed = rd\<rparr>,
      slides = non_null loaded\<rparr>"
  have p: "parse engine parseXmlContent (Inr files) = Inr result"
    using assms(1-7) loaded
    by (simp add: parse_def parse_try_def getFileContent_def result_def)
  have "map (\<lambda>s. (slide_id s, Inr (path s))) (slides result)
     = map (\<lambda>r. (relation_id r, target_path r)) (filter (resolves files) relations)"
    using promise_all_load[OF loaded] by (simp add: result_def)
  then have "map fst (map (\<lambda>s. (slide_id s, Inr (path s) :: js_error + string)) (slides result))
     = map fst (map (\<lambda>r. (relation_id r, target_path r)) (filter (resolves files) relations))"
    by simp
  then have ids: "map slide_id (slides result) = map relation_id (filter (resolves files) relations)"
    by (simp add: comp_def)
  have "length (slides result) = 1 \<and> map slide_id (slides result) = [Str ''rId3'']"
    if a: "relations = [\<lparr>relation_id = Str ''rId2'', target = t2\<rparr>,
                        \<lparr>relation_id = Str ''rId3'', target = t3\<rparr>]
                \<and> \<not> resolves files \<lparr>relation_id = Str ''rId2'', target = t2\<rparr>
                \<and> resolves files \<lparr>relation_id = Str ''rId3'', target = t3\<rparr>" for t2 t3
  proof -
    from a ids have m: "map slide_id (slides result) = [Str ''rId3'']" by simp
    have "length (map slide_id (slides result)) = length [Str ''rId3'']"
      by (simp only: m)
    then have "length (slides result) = 1" by simp
    with m show ?thesis by simp
  qed
  with p ids show "\<exists>result. parse engine parseXmlContent (Inr files) = Inr result
          \<and> map slide_id (slides result) = map relation_id (filter (resolves files) relations)
          \<and> (\<forall>t2 t3. relations = [\<lparr>relation_id = Str ''rId2'', target = t2\<rparr>,
                                   \<lparr>relation_id = Str ''rId3'', target = t3\<rparr>]
                \<and> \<not> resolves files \<lparr>relation_id = Str ''rId2'', target = t2\<rparr>
                \<and> resolves files \<lparr>relation_id = Str ''rId3'', target = t3\<rparr>
              \<longrightarrow> length (slides result) = 1 \<and> map slide_id (slides result) = [Str ''rId3''])"
    by blast
qed

theorem parse_drops_unresolved_relation_witness:
  "\<not> resolves example_files \<lparr>relation_id = Str ''rId2'', target = Str ''slides/slide1.xml''\<rparr>
   \<and> resolves example_files \<lparr>relation_id = Str ''rId3'', target = Str ''slides/slide2.xml''\<rparr>
   \<and> load_slide example_parser example_files
        \<lparr>relation_id = Str ''rId2'', target = Str ''slides/slide1.xml''\<rparr> = Inr None
   \<and> (\<exists>result. parse (\<lambda>operation. []) example_parser (Inr example_files) = Inr result
         \<and> length (slides result) = 1 \<and> map slide_id (slides result) = [Str ''rId3''])"
proof -
  have r2: "\<not> resolves example_files \<lparr>relation_id = Str ''rId2'', target = Str ''slides/slide1.xml''\<rparr>"
    and r3: "resolves example_files \<lparr>relation_id = Str ''rId3'', target = Str ''slides/slide2.xml''\<rparr>"
    by (simp_all add: resolves_def target_path_def example_files_def)
  have a: "find (\<lambda>d. file_path d = ''ppt/presentation.xml'') example_files
            = Some \<lparr>file_path = ''ppt/presentation.xml'', file_stream = Inr ''P''\<rparr>"
    "file_stream \<lparr>file_path = ''ppt/presentation.xml'', file_stream = Inr ''P''\<rparr> = Inr ''P''"
    "example_parser ''P'' = Inr (Obj [(''p:presentation'', Str [])])"
    "find (\<lambda>d. file_path d = ''ppt/_rels/presentation.xml.rels'') example_files
            = Some \<lparr>file_path = ''ppt/_rels/presentation.xml.rels'', file_stream = Inr ''R''\<rparr>"
    "file_stream \<lparr>file_path = ''ppt/_rels/presentation.xml.rels'', file_stream = Inr ''R''\<rparr> = Inr ''R''"
    "example_parser ''R'' = Inr example_relationships"
    by (simp_all add: example_files_def example_parser_def)
  have l: "\<forall>r\<in>set [\<lparr>relation_id = Str ''rId2'', target = Str ''slides/slide1.xml''\<rparr>,
                    \<lparr>relation_id = Str ''rId3'', target = Str ''slides/slide2.xml''\<rparr>].
            \<exists>p. target_path r = Inr p
              \<and> (\<forall>f. find (\<lambda>f. file_path f = p) example_files = Some f
                    \<longrightarrow> (\<exists>c t. file_stream f = Inr c \<and> example_parser c = Inr t))"
    by (simp add: target_path_def example_files_def example_parser_def)
  from parse_drops_unresolved_relation[OF a example_relations l, of "\<lambda>operation. []"] r2 r3
  show ?thesis by auto
qed

end
